theory Spec2Isabelle
  imports Complex_Main "HOL-Library.AList" "HOL-Library.Log_Nat"
begin

section \<open>JavaScript numbers and strings\<close>

text \<open>
  The service computes with JavaScript numbers, which are doubles. A number is modelled
  as a rational or \<open>NaN\<close>; the infinities are left out. Every division of the modelled
  code is by a non-zero constant or stands behind a test \<open>> 0\<close>, so no infinity arises
  from the arithmetic; \<open>undefined\<close> (a read past the end of an array) behaves like
  \<open>NaN\<close> in each arithmetic context in which the code uses it, and is modelled by it.

  The operations \<open>js_add\<close>, \<open>js_sub\<close>, \<open>js_mul\<close> and \<open>js_div\<close> below are exact. They
  model the arithmetic of the byte counters and of the rates, where the statements made
  are about the sign of a result, about a result of 0, or about values that doubles
  represent. The percentages (CPU usage, memory) and the numbers read by \<open>Number\<close> and
  \<open>parseFloat\<close> are modelled with the rounding of the double arithmetic, by the
  operations \<open>dbl_add\<close>, \<open>dbl_sub\<close>, \<open>dbl_mul\<close> and \<open>dbl_div\<close> of the next subsection.
\<close>

datatype jsnum = NaN | Num rat

fun js_add :: "jsnum \<Rightarrow> jsnum \<Rightarrow> jsnum" where
  "js_add (Num a) (Num b) = Num (a + b)"
| "js_add _ _ = NaN"

fun js_sub :: "jsnum \<Rightarrow> jsnum \<Rightarrow> jsnum" where
  "js_sub (Num a) (Num b) = Num (a - b)"
| "js_sub _ _ = NaN"

fun js_mul :: "jsnum \<Rightarrow> jsnum \<Rightarrow> jsnum" where
  "js_mul (Num a) (Num b) = Num (a * b)"
| "js_mul _ _ = NaN"

text \<open>Division; the divisor is never zero where the code divides.\<close>

fun js_div :: "jsnum \<Rightarrow> jsnum \<Rightarrow> jsnum" where
  "js_div (Num a) (Num b) = (if b = 0 then NaN else Num (a / b))"
| "js_div _ _ = NaN"

text \<open>\<open>a > b\<close>: false as soon as one side is \<open>NaN\<close>.\<close>

fun js_gt :: "jsnum \<Rightarrow> jsnum \<Rightarrow> bool" where
  "js_gt (Num a) (Num b) = (a > b)"
| "js_gt _ _ = False"

text \<open>\<open>Math.max\<close> and \<open>Math.min\<close>: \<open>NaN\<close> as soon as one argument is.\<close>

fun js_max :: "jsnum \<Rightarrow> jsnum \<Rightarrow> jsnum" where
  "js_max (Num a) (Num b) = Num (max a b)"
| "js_max _ _ = NaN"

fun js_min :: "jsnum \<Rightarrow> jsnum \<Rightarrow> jsnum" where
  "js_min (Num a) (Num b) = Num (min a b)"
| "js_min _ _ = NaN"

text \<open>\<open>x || 0\<close>: zero for the falsy numbers \<open>0\<close> and \<open>NaN\<close> (and for \<open>undefined\<close>).\<close>

fun js_or0 :: "jsnum \<Rightarrow> jsnum" where
  "js_or0 (Num a) = Num a"
| "js_or0 NaN = Num 0"

subsection \<open>Rounding to double precision\<close>

text \<open>
  A double has a significand of 53 bits. \<open>binExponent x\<close> is the exponent \<open>e\<close> of a
  positive \<open>x\<close>, the integer with \<open>2^e \<le> x < 2^(e+1)\<close>; it is found from the bit length of
  \<open>\<lfloor>x\<rfloor>\<close> when \<open>x \<ge> 1\<close> and of \<open>\<lfloor>1 / x\<rfloor>\<close> otherwise. \<open>dbl x\<close> is the double nearest
  to \<open>x\<close>: \<open>x\<close> is scaled so that its significand lies between \<open>2^52\<close> and \<open>2^53\<close>, rounded
  to the nearest integer, to the even one in case of a tie, and scaled back. The range of
  the exponent is not bounded: the overflow to \<open>Infinity\<close> beyond \<open>2^1024\<close> and the
  coarser steps of the subnormal numbers below \<open>2^-1022\<close> are not modelled.
\<close>

definition binExponent :: "rat \<Rightarrow> int" where
  "binExponent x =
     (if 1 \<le> x then bitlen \<lfloor>x\<rfloor> - 1
      else (let b = bitlen \<lfloor>1 / x\<rfloor> in if x * 2 powi (b - 1) = 1 then 1 - b else - b))"

definition roundHalfEven :: "rat \<Rightarrow> int" where
  "roundHalfEven y =
     (let n = \<lfloor>y\<rfloor>; r = y - of_int n
      in if r < 1 / 2 then n else if 1 / 2 < r then n + 1 else if even n then n else n + 1)"

definition dbl :: "rat \<Rightarrow> rat" where
  "dbl x =
     (if x = 0 then 0
      else (let e = binExponent \<bar>x\<bar>;
                m = roundHalfEven (\<bar>x\<bar> * 2 powi (52 - e))
            in sgn x * of_int m * 2 powi (e - 52)))"

text \<open>The four operations on doubles: the exact result, rounded.\<close>

fun dbl_add :: "jsnum \<Rightarrow> jsnum \<Rightarrow> jsnum" where
  "dbl_add (Num a) (Num b) = Num (dbl (a + b))"
| "dbl_add _ _ = NaN"

fun dbl_sub :: "jsnum \<Rightarrow> jsnum \<Rightarrow> jsnum" where
  "dbl_sub (Num a) (Num b) = Num (dbl (a - b))"
| "dbl_sub _ _ = NaN"

fun dbl_mul :: "jsnum \<Rightarrow> jsnum \<Rightarrow> jsnum" where
  "dbl_mul (Num a) (Num b) = Num (dbl (a * b))"
| "dbl_mul _ _ = NaN"

fun dbl_div :: "jsnum \<Rightarrow> jsnum \<Rightarrow> jsnum" where
  "dbl_div (Num a) (Num b) = (if b = 0 then NaN else Num (dbl (a / b)))"
| "dbl_div _ _ = NaN"

text \<open>\<open>xs[i]\<close> on an array of numbers, used as a number.\<close>

definition js_index :: "jsnum list \<Rightarrow> nat \<Rightarrow> jsnum" where
  "js_index xs i = (if i < length xs then xs ! i else NaN)"

text \<open>\<open>xs.reduce((a, b) => a + b, 0)\<close>, each sum rounded.\<close>

definition js_sum :: "jsnum list \<Rightarrow> jsnum" where
  "js_sum xs = foldl dbl_add (Num 0) xs"

subsection \<open>Strings\<close>

text \<open>
  Strings are lists of 8-bit characters; the text of \<open>/proc\<close> is ASCII. The white space
  of \<open>trim\<close> and of the class \<open>\s\<close> is its ASCII part: tab, line feed, vertical tab,
  form feed, carriage return and space.
\<close>

definition isSpace :: "char \<Rightarrow> bool" where
  "isSpace c = (c \<in> set [CHR 0x09, CHR 0x0A, CHR 0x0B, CHR 0x0C, CHR 0x0D, CHR 0x20])"

definition isDigit :: "char \<Rightarrow> bool" where
  "isDigit c = (c \<in> set ''0123456789'')"

definition isLower :: "char \<Rightarrow> bool" where
  "isLower c = (c \<in> set ''abcdefghijklmnopqrstuvwxyz'')"

definition trim :: "string \<Rightarrow> string" where
  "trim s = rev (dropWhile isSpace (rev (dropWhile isSpace s)))"

text \<open>\<open>s.split(c)\<close> for a separator of one character: the empty string gives one empty part.\<close>

fun splitOn :: "char \<Rightarrow> string \<Rightarrow> string list" where
  "splitOn c [] = [[]]"
| "splitOn c (x # xs) =
     (if x = c then [] # splitOn c xs
      else (case splitOn c xs of [] \<Rightarrow> [[x]] | p # ps \<Rightarrow> (x # p) # ps))"

text \<open>
  \<open>s.split(/\s+/)\<close>: the parts between the maximal runs of white space; white space at
  either end leaves an empty part there, and the empty string gives one empty part.
\<close>

function splitWs :: "string \<Rightarrow> string list" where
  "splitWs s =
     (case dropWhile (\<lambda>c. \<not> isSpace c) s of
        [] \<Rightarrow> [s]
      | _ # r \<Rightarrow> takeWhile (\<lambda>c. \<not> isSpace c) s # splitWs (dropWhile isSpace r))"
  by pat_completeness auto
termination
proof (relation "measure length")
  show "wf (measure length)" by simp
next
  fix s :: string and x r
  assume a: "dropWhile (\<lambda>c. \<not> isSpace c) s = x # r"
  have "length (dropWhile isSpace r) \<le> length r"
    by (rule length_dropWhile_le)
  moreover have "length (x # r) \<le> length s"
    unfolding a [symmetric] by (rule length_dropWhile_le)
  ultimately show "(dropWhile isSpace r, s) \<in> measure length"
    by simp
qed

declare splitWs.simps [simp del]

definition digitVal :: "char \<Rightarrow> nat" where
  "digitVal c = of_char c - 48"

definition decimal :: "string \<Rightarrow> nat" where
  "decimal ds = foldl (\<lambda>n c. 10 * n + digitVal c) 0 ds"

text \<open>
  \<open>parseInt(s, 10)\<close>: leading white space is skipped, then an optional sign, then the
  longest run of decimal digits is read; no digit gives \<open>NaN\<close>. The result is the
  integer read, which is what JavaScript returns for every run of digits below \<open>2^53\<close>;
  the rounding of a longer run to a double is not modelled.
\<close>

definition parseInt :: "string \<Rightarrow> jsnum" where
  "parseInt s =
     (let t = dropWhile isSpace s;
          neg = (t \<noteq> [] \<and> hd t = CHR ''-'');
          u = (if t \<noteq> [] \<and> (hd t = CHR ''-'' \<or> hd t = CHR ''+'') then tl t else t);
          ds = takeWhile isDigit u
      in if ds = [] then NaN
         else Num (if neg then - of_nat (decimal ds) else of_nat (decimal ds)))"

text \<open>
  The decimal literals of \<open>Number\<close> and \<open>parseFloat\<close>: an optional sign, digits with an
  optional fraction (or a fraction alone) and an optional exponent. The result is the
  value read, before rounding, and the rest of the string. The spelling \<open>Infinity\<close> is
  not modelled (it reads as \<open>NaN\<close> here); \<open>/proc\<close> does not emit it.
\<close>

definition fraction :: "string \<Rightarrow> rat" where
  "fraction ds = of_nat (decimal ds) / 10 ^ length ds"

definition readExponent :: "string \<Rightarrow> (int \<times> string)" where
  "readExponent s =
     (if s \<noteq> [] \<and> (hd s = CHR ''e'' \<or> hd s = CHR ''E'') then
        (let t = tl s;
             neg = (t \<noteq> [] \<and> hd t = CHR ''-'');
             u = (if t \<noteq> [] \<and> (hd t = CHR ''-'' \<or> hd t = CHR ''+'') then tl t else t);
             ds = takeWhile isDigit u
         in if ds = [] then (0, s)
            else (if neg then - int (decimal ds) else int (decimal ds), dropWhile isDigit u))
      else (0, s))"

definition readDecimal :: "string \<Rightarrow> (rat \<times> string) option" where
  "readDecimal s =
     (let neg = (s \<noteq> [] \<and> hd s = CHR ''-'');
          u = (if s \<noteq> [] \<and> (hd s = CHR ''-'' \<or> hd s = CHR ''+'') then tl s else s);
          ip = takeWhile isDigit u;
          r1 = dropWhile isDigit u;
          dot = (r1 \<noteq> [] \<and> hd r1 = CHR ''.'');
          fp = (if dot then takeWhile isDigit (tl r1) else []);
          r2 = (if dot then dropWhile isDigit (tl r1) else r1)
      in if ip = [] \<and> fp = [] then None
         else (let m = of_nat (decimal ip) + fraction fp;
                   (e, r3) = readExponent r2;
                   v = m * (10 powi e)
               in Some (if neg then - v else v, r3)))"

text \<open>\<open>parseFloat(s)\<close>: the longest decimal literal at the start, after white space.\<close>

definition parseFloat :: "string \<Rightarrow> jsnum" where
  "parseFloat s =
     (case readDecimal (dropWhile isSpace s) of None \<Rightarrow> NaN | Some (v, _) \<Rightarrow> Num (dbl v))"

text \<open>
  The integer literals with a radix prefix, which \<open>Number\<close> accepts without a sign:
  \<open>0x\<close> or \<open>0X\<close> and hexadecimal digits, \<open>0o\<close> or \<open>0O\<close> and octal digits, \<open>0b\<close> or \<open>0B\<close>
  and binary digits, one digit at least.
\<close>

definition hexVal :: "char \<Rightarrow> nat option" where
  "hexVal c =
     (if isDigit c then Some (of_char c - 48)
      else if c \<in> set ''abcdef'' then Some (of_char c - 87)
      else if c \<in> set ''ABCDEF'' then Some (of_char c - 55)
      else None)"

fun radixDigits :: "nat \<Rightarrow> nat \<Rightarrow> string \<Rightarrow> nat option" where
  "radixDigits r acc [] = Some acc"
| "radixDigits r acc (c # cs) =
     (case hexVal c of
        None \<Rightarrow> None
      | Some v \<Rightarrow> if v < r then radixDigits r (r * acc + v) cs else None)"

definition radixLiteral :: "string \<Rightarrow> nat option" where
  "radixLiteral t =
     (case t of
        c0 # p # d # ds \<Rightarrow>
          if c0 = CHR ''0'' then
            (if p = CHR ''x'' \<or> p = CHR ''X'' then radixDigits 16 0 (d # ds)
             else if p = CHR ''o'' \<or> p = CHR ''O'' then radixDigits 8 0 (d # ds)
             else if p = CHR ''b'' \<or> p = CHR ''B'' then radixDigits 2 0 (d # ds)
             else None)
          else None
      | _ \<Rightarrow> None)"

text \<open>
  \<open>Number(s)\<close>: the whole string, white space at both ends apart, must be a literal
  with a radix prefix or a decimal literal; the empty string is \<open>0\<close>. The value read is
  rounded to the nearest double.
\<close>

definition Number :: "string \<Rightarrow> jsnum" where
  "Number s =
     (let t = trim s
      in if t = [] then Num 0
         else (case radixLiteral t of
                 Some n \<Rightarrow> Num (dbl (of_nat n))
               | None \<Rightarrow>
                   (case readDecimal t of
                      Some (v, []) \<Rightarrow> Num (dbl v)
                    | _ \<Rightarrow> NaN)))"

text \<open>
  \<open>parseCpuLine(line)\<close>: \<open>line.trim().split(/\s+/).slice(1).map(Number)\<close>.
\<close>

definition parseCpuLine :: "string \<Rightarrow> jsnum list" where
  "parseCpuLine line = map Number (drop 1 (splitWs (trim line)))"

section \<open>History streams\<close>

record Stamped =
  timestamp :: int

record HistoryPoint = Stamped +
  val :: jsnum

definition MAX_HISTORY_POINTS :: nat where
  "MAX_HISTORY_POINTS = 60"

text \<open>
  \<open>addHistoryPoint(arr, value)\<close>: push the point stamped with the reading \<open>now\<close> of
  \<open>Date.now()\<close>, then drop the first element if the array has more than 60.
\<close>

definition addHistoryPoint :: "HistoryPoint list \<Rightarrow> int \<Rightarrow> jsnum \<Rightarrow> HistoryPoint list" where
  "addHistoryPoint arr now v =
     (let arr1 = arr @ [\<lparr>timestamp = now, val = v\<rparr>]
      in if length arr1 > MAX_HISTORY_POINTS then tl arr1 else arr1)"

text \<open>A run of appends, each with its own clock reading and value, oldest first.\<close>

definition addHistoryPoints :: "HistoryPoint list \<Rightarrow> (int \<times> jsnum) list \<Rightarrow> HistoryPoint list" where
  "addHistoryPoints arr ps = foldl (\<lambda>a (t, v). addHistoryPoint a t v) arr ps"

definition mkPoint :: "int \<times> jsnum \<Rightarrow> HistoryPoint" where
  "mkPoint p = \<lparr>timestamp = fst p, val = snd p\<rparr>"

section \<open>The state of the service\<close>

text \<open>
  The previous snapshots: \<open>{ read, write, timestamp }\<close> for disks (the fields are
  \<open>readBytes\<close> and \<open>writeBytes\<close> here, \<open>write\<close> being reserved) and
  \<open>{ sent, recv, timestamp }\<close> for the network. The records share the field
  \<open>timestamp\<close> with \<open>HistoryPoint\<close> through a common parent.
\<close>

record DiskSnapshot = Stamped +
  readBytes :: jsnum
  writeBytes :: jsnum

record NetSnapshot = Stamped +
  sent :: jsnum
  recv :: jsnum

record DiskCounters =
  read_cur :: jsnum
  write_cur :: jsnum

record NetCounters =
  sent_cur :: jsnum
  recv_cur :: jsnum

record DiskRate =
  readRate :: jsnum
  writeRate :: jsnum

record IfaceRate =
  sentRate :: jsnum
  recvRate :: jsnum

record SystemHistory =
  cpu :: "HistoryPoint list"
  memory :: "HistoryPoint list"
  diskRead :: "HistoryPoint list"
  diskWrite :: "HistoryPoint list"
  networkSent :: "HistoryPoint list"
  networkRecv :: "HistoryPoint list"

record DiskHistory =
  read_hist :: "HistoryPoint list"
  write_hist :: "HistoryPoint list"

record IfaceHistory =
  sent_hist :: "HistoryPoint list"
  recv_hist :: "HistoryPoint list"

record SystemStats =
  cpuUsage :: jsnum
  cpuCores :: nat
  cpuPerCore :: "jsnum list"
  memoryTotal :: jsnum
  memoryUsed :: jsnum
  memoryFree :: jsnum
  memoryCached :: jsnum
  swapTotal :: jsnum
  swapUsed :: jsnum
  diskReadRate :: jsnum
  diskWriteRate :: jsnum
  perDiskStats :: "string \<rightharpoonup> DiskRate"
  networkSentRate :: jsnum
  networkRecvRate :: jsnum
  perIfaceStats :: "string \<rightharpoonup> IfaceRate"
  uptime :: string
  loadAvg :: "jsnum list"

text \<open>
  The module's variables. \<open>clockReads\<close> is not a variable of the source: it counts the
  calls of \<open>Date.now()\<close> made so far, and the \<open>n\<close>-th call returns \<open>clk n\<close> for the
  clock \<open>clk\<close> the functions below take. The \<open>Record\<close> objects are finite maps
  from their own keys; the names every object inherits (\<open>__proto__\<close>, \<open>constructor\<close>
  and the like) are taken not to occur as device or interface names.
\<close>

record Engine =
  prevCpuTimes :: "jsnum list option"
  prevPerCoreTimes :: "jsnum list list option"
  prevNetStats :: "NetSnapshot option"
  prevPerIfaceStats :: "string \<rightharpoonup> NetSnapshot"
  prevDiskStats :: "DiskSnapshot option"
  prevPerDiskStats :: "string \<rightharpoonup> DiskSnapshot"
  history :: SystemHistory
  perDiskHistories :: "string \<rightharpoonup> DiskHistory"
  perIfaceHistories :: "string \<rightharpoonup> IfaceHistory"
  perCoreHistories :: "nat \<rightharpoonup> HistoryPoint list"
  clockReads :: nat

definition initialEngine :: Engine where
  "initialEngine =
     \<lparr>prevCpuTimes = None, prevPerCoreTimes = None, prevNetStats = None,
      prevPerIfaceStats = Map.empty, prevDiskStats = None, prevPerDiskStats = Map.empty,
      history = \<lparr>cpu = [], memory = [], diskRead = [], diskWrite = [],
                 networkSent = [], networkRecv = []\<rparr>,
      perDiskHistories = Map.empty, perIfaceHistories = Map.empty,
      perCoreHistories = Map.empty, clockReads = 0\<rparr>"

text \<open>The \<open>stats\<close> object as \<open>fetchSystemStats\<close> creates it.\<close>

definition initialStats :: SystemStats where
  "initialStats =
     \<lparr>cpuUsage = Num 0, cpuCores = 1, cpuPerCore = [],
      memoryTotal = Num 0, memoryUsed = Num 0, memoryFree = Num 0, memoryCached = Num 0,
      swapTotal = Num 0, swapUsed = Num 0,
      diskReadRate = Num 0, diskWriteRate = Num 0, perDiskStats = Map.empty,
      networkSentRate = Num 0, networkRecvRate = Num 0, perIfaceStats = Map.empty,
      uptime = [], loadAvg = [Num 0, Num 0, Num 0]\<rparr>"

type_synonym pass_state = "Engine \<times> SystemStats"

text \<open>One call of \<open>Date.now()\<close>.\<close>

definition dateNow :: "(nat \<Rightarrow> int) \<Rightarrow> Engine \<Rightarrow> int \<times> Engine" where
  "dateNow clk st = (clk (clockReads st), st\<lparr>clockReads := clockReads st + 1\<rparr>)"

section \<open>CPU\<close>

text \<open>
  The usage of one tick line against the previous one, as the code computes it for the
  aggregate line and for each core:
  \<open>total > 0 ? Math.max(0, Math.min(100, ((total - idle) / total) * 100)) : 0\<close>
  with \<open>total\<close> the difference of the sums and \<open>idle\<close> the difference of
  \<open>t[3] + (t[4] || 0)\<close>. Every operation rounds its result to a double: the quotient
  is rounded, and so is its product with 100.
\<close>

definition idleTicks :: "jsnum list \<Rightarrow> jsnum" where
  "idleTicks t = dbl_add (js_index t 3) (js_or0 (js_index t 4))"

definition cpuUsageOf :: "jsnum list \<Rightarrow> jsnum list \<Rightarrow> jsnum" where
  "cpuUsageOf cur prev =
     (let totalDelta = dbl_sub (js_sum cur) (js_sum prev);
          idleDelta = dbl_sub (idleTicks cur) (idleTicks prev)
      in if js_gt totalDelta (Num 0)
         then js_max (Num 0) (js_min (Num 100)
                (dbl_mul (dbl_div (dbl_sub totalDelta idleDelta) totalDelta) (Num 100)))
         else Num 0)"

text \<open>\<open>/^cpu\d+/.test(l)\<close>.\<close>

definition isCoreLine :: "string \<Rightarrow> bool" where
  "isCoreLine l = (take 3 l = ''cpu'' \<and> length l > 3 \<and> isDigit (l ! 3))"

text \<open>The per-core history: for each index, create the stream if it is missing, then append.\<close>

fun perCoreHistory :: "(nat \<Rightarrow> int) \<Rightarrow> nat \<Rightarrow> jsnum list \<Rightarrow> Engine \<Rightarrow> Engine" where
  "perCoreHistory clk i [] st = st"
| "perCoreHistory clk i (usage # rest) st =
     (let arr = (case perCoreHistories st i of None \<Rightarrow> [] | Some a \<Rightarrow> a);
          (now, st1) = dateNow clk st;
          st2 = st1\<lparr>perCoreHistories := (perCoreHistories st1)(i \<mapsto> addHistoryPoint arr now usage)\<rparr>
      in perCoreHistory clk (i + 1) rest st2)"

definition cpuSection :: "(nat \<Rightarrow> int) \<Rightarrow> string \<Rightarrow> pass_state \<Rightarrow> pass_state" where
  "cpuSection clk statContent ps =
     (let (st, stats) = ps;
          lines = splitOn CHR 0x0A statContent;
          cpuTotal = parseCpuLine (hd lines);
          coreLines = filter isCoreLine lines;
          cores = (if length coreLines = 0 then 1 else length coreLines);
          usage = (case prevCpuTimes st of
                     Some prev \<Rightarrow> cpuUsageOf cpuTotal prev
                   | None \<Rightarrow> cpuUsage stats);
          currentCoreTimes = map parseCpuLine coreLines;
          perCore = (case prevPerCoreTimes st of
                       Some prevs \<Rightarrow>
                         if length prevs = length currentCoreTimes
                         then map (\<lambda>(core, prev). cpuUsageOf core prev) (zip currentCoreTimes prevs)
                         else replicate cores (Num 0)
                     | None \<Rightarrow> replicate cores (Num 0));
          st1 = st\<lparr>prevCpuTimes := Some cpuTotal, prevPerCoreTimes := Some currentCoreTimes\<rparr>
      in (perCoreHistory clk 0 perCore st1,
          stats\<lparr>cpuUsage := usage, cpuCores := cores, cpuPerCore := perCore\<rparr>))"

section \<open>Memory, uptime and load\<close>

text \<open>
  \<open>getVal(key)\<close>: the first place of the content where \<open>key:\<close>, white space and at
  least one digit stand; the digits are read by \<open>parseInt\<close>, and no match gives \<open>0\<close>.
  The keys the code passes contain no character that is special in a regular expression.
\<close>

definition matchVal :: "string \<Rightarrow> string \<Rightarrow> jsnum option" where
  "matchVal key s =
     (let k = key @ '':''
      in if take (length k) s = k
         then (let ds = takeWhile isDigit (dropWhile isSpace (drop (length k) s))
               in if ds = [] then None else Some (parseInt ds))
         else None)"

fun getVal :: "string \<Rightarrow> string \<Rightarrow> jsnum" where
  "getVal key [] = (case matchVal key [] of Some v \<Rightarrow> v | None \<Rightarrow> Num 0)"
| "getVal key (c # cs) =
     (case matchVal key (c # cs) of Some v \<Rightarrow> v | None \<Rightarrow> getVal key cs)"

definition memorySection :: "string \<Rightarrow> SystemStats \<Rightarrow> SystemStats" where
  "memorySection meminfoContent stats =
     (let total = getVal ''MemTotal'' meminfoContent;
          free = getVal ''MemFree'' meminfoContent;
          cached = js_add (js_add (getVal ''Cached'' meminfoContent)
                                  (getVal ''Buffers'' meminfoContent))
                          (getVal ''SReclaimable'' meminfoContent);
          swapT = getVal ''SwapTotal'' meminfoContent
      in stats\<lparr>memoryTotal := total, memoryFree := free, memoryCached := cached,
               memoryUsed := js_sub (js_sub total free) cached,
               swapTotal := swapT,
               swapUsed := js_sub swapT (getVal ''SwapFree'' meminfoContent)\<rparr>)"

text \<open>\<open>Math.floor\<close>, and \<open>a % b\<close> for a positive constant \<open>b\<close> (the sign of \<open>a\<close> is kept).\<close>

fun js_floor :: "jsnum \<Rightarrow> jsnum" where
  "js_floor (Num a) = Num (of_int \<lfloor>a\<rfloor>)"
| "js_floor NaN = NaN"

fun js_rem :: "jsnum \<Rightarrow> rat \<Rightarrow> jsnum" where
  "js_rem (Num a) b =
     Num (a - b * of_int (if 0 \<le> a then \<lfloor>a / b\<rfloor> else \<lceil>a / b\<rceil>))"
| "js_rem NaN b = NaN"

text \<open>
  A number inside a template literal. The code prints results of \<open>Math.floor\<close> only;
  they are printed in decimal (the exponent notation of numbers from \<open>10^21\<close> on is
  left out).
\<close>

fun showNat :: "nat \<Rightarrow> string" where
  "showNat n =
     (if n < 10 then [char_of (48 + n)] else showNat (n div 10) @ [char_of (48 + n mod 10)])"

declare showNat.simps [simp del]

fun showNum :: "jsnum \<Rightarrow> string" where
  "showNum NaN = ''NaN''"
| "showNum (Num a) =
     (if a < 0 then CHR ''-'' # showNat (nat (- \<lfloor>a\<rfloor>)) else showNat (nat \<lfloor>a\<rfloor>))"

definition uptimeSection :: "string \<Rightarrow> SystemStats \<Rightarrow> SystemStats" where
  "uptimeSection uptimeContent stats =
     (let secs = parseFloat (hd (splitOn CHR '' '' uptimeContent));
          days = js_floor (js_div secs (Num 86400));
          hours = js_floor (js_div (js_rem secs 86400) (Num 3600));
          mins = js_floor (js_div (js_rem secs 3600) (Num 60))
      in stats\<lparr>uptime :=
           (if js_gt days (Num 0)
            then showNum days @ ''d '' @ showNum hours @ ''h '' @ showNum mins @ ''m''
            else showNum hours @ ''h '' @ showNum mins @ ''m'')\<rparr>)"

definition loadSection :: "string \<Rightarrow> SystemStats \<Rightarrow> SystemStats" where
  "loadSection loadavgContent stats =
     stats\<lparr>loadAvg := map Number (take 3 (splitOn CHR '' '' loadavgContent))\<rparr>"

section \<open>Rates\<close>

text \<open>
  The two expressions every rate of the service is made of:
  \<open>dt = (now - prev.timestamp) / 1000\<close> and, behind the test \<open>dt > 0\<close>,
  \<open>Math.max(0, (cur - prev) / 1024 / dt)\<close>.
\<close>

definition elapsedSec :: "int \<Rightarrow> int \<Rightarrow> jsnum" where
  "elapsedSec now ts = Num (of_int (now - ts) / 1000)"

definition kbRate :: "jsnum \<Rightarrow> jsnum \<Rightarrow> jsnum \<Rightarrow> jsnum" where
  "kbRate cur prev dt = js_max (Num 0) (js_div (js_div (js_sub cur prev) (Num 1024)) dt)"

section \<open>Disk I/O\<close>

text \<open>
  The test on a device name:
  \<open>/^(sd|nvme|vd|xvd|hd)[a-z]/.test(devName) && !/\d+$/.test(devName)\<close>.
\<close>

definition startsWithThenLower :: "string \<Rightarrow> string \<Rightarrow> bool" where
  "startsWithThenLower p devName =
     (take (length p) devName = p \<and> length p < length devName \<and> isLower (devName ! length p))"

definition diskPrefixes :: "string list" where
  "diskPrefixes = [''sd'', ''nvme'', ''vd'', ''xvd'', ''hd'']"

definition endsInDigit :: "string \<Rightarrow> bool" where
  "endsInDigit devName = (devName \<noteq> [] \<and> isDigit (last devName))"

definition isDiskDevice :: "string \<Rightarrow> bool" where
  "isDiskDevice devName =
     (list_ex (\<lambda>p. startsWithThenLower p devName) diskPrefixes \<and> \<not> endsInDigit devName)"

type_synonym disk_acc = "jsnum \<times> jsnum \<times> (string \<times> DiskCounters) list"

text \<open>
  One line of \<open>/proc/diskstats\<close>. \<open>currentPerDisk\<close> is an object whose keys keep the
  order of their first insertion: an association list, updated in place.
\<close>

definition diskLine :: "disk_acc \<Rightarrow> string \<Rightarrow> disk_acc" where
  "diskLine acc line =
     (let (totalRead, totalWrite, currentPerDisk) = acc;
          parts = splitWs (trim line)
      in if length parts \<ge> 14 then
           (let devName = parts ! 2
            in if isDiskDevice devName then
                 (let rd = js_mul (parseInt (parts ! 5)) (Num 512);
                      wr = js_mul (parseInt (parts ! 9)) (Num 512)
                  in (js_add totalRead rd, js_add totalWrite wr,
                      AList.update devName \<lparr>read_cur = rd, write_cur = wr\<rparr> currentPerDisk))
               else acc)
         else acc)"

definition diskLines :: "string \<Rightarrow> disk_acc" where
  "diskLines diskstatsContent =
     foldl diskLine (Num 0, Num 0, []) (splitOn CHR 0x0A diskstatsContent)"

text \<open>The aggregate rates, and the new aggregate snapshot.\<close>

definition diskAggregate :: "int \<Rightarrow> jsnum \<Rightarrow> jsnum \<Rightarrow> pass_state \<Rightarrow> pass_state" where
  "diskAggregate now totalRead totalWrite ps =
     (let (st, stats) = ps;
          stats1 = (case prevDiskStats st of
                      Some p \<Rightarrow>
                        (let dt = elapsedSec now (timestamp p)
                         in if js_gt dt (Num 0)
                            then stats\<lparr>diskReadRate := kbRate totalRead (readBytes p) dt,
                                       diskWriteRate := kbRate totalWrite (writeBytes p) dt\<rparr>
                            else stats)
                    | None \<Rightarrow> stats)
      in (st\<lparr>prevDiskStats :=
               Some \<lparr>timestamp = now, readBytes = totalRead, writeBytes = totalWrite\<rparr>\<rparr>,
          stats1))"

text \<open>
  One device of \<open>currentPerDisk\<close>: the rates and the two history points when a previous
  snapshot exists and time has passed, then the new snapshot in every case.
\<close>

definition perDiskRates :: "(nat \<Rightarrow> int) \<Rightarrow> int \<Rightarrow> string \<Rightarrow> DiskCounters \<Rightarrow> pass_state \<Rightarrow> pass_state" where
  "perDiskRates clk now dev cur ps =
     (let (st, stats) = ps
      in case prevPerDiskStats st dev of
           None \<Rightarrow> ps
         | Some p \<Rightarrow>
             (let dt = elapsedSec now (timestamp p)
              in if js_gt dt (Num 0) then
                   (let rr = kbRate (read_cur cur) (readBytes p) dt;
                        wr = kbRate (write_cur cur) (writeBytes p) dt;
                        h = (case perDiskHistories st dev of
                               None \<Rightarrow> \<lparr>read_hist = [], write_hist = []\<rparr>
                             | Some h0 \<Rightarrow> h0);
                        (t1, st1) = dateNow clk st;
                        (t2, st2) = dateNow clk st1;
                        h1 = \<lparr>read_hist = addHistoryPoint (read_hist h) t1 rr,
                              write_hist = addHistoryPoint (write_hist h) t2 wr\<rparr>
                    in (st2\<lparr>perDiskHistories := (perDiskHistories st2)(dev \<mapsto> h1)\<rparr>,
                        stats\<lparr>perDiskStats :=
                                (perDiskStats stats)(dev \<mapsto> \<lparr>readRate = rr, writeRate = wr\<rparr>)\<rparr>))
                 else ps))"

definition perDiskStep :: "(nat \<Rightarrow> int) \<Rightarrow> int \<Rightarrow> pass_state \<Rightarrow> string \<times> DiskCounters \<Rightarrow> pass_state" where
  "perDiskStep clk now ps e =
     (let (dev, cur) = e;
          (st, stats) = perDiskRates clk now dev cur ps
      in (st\<lparr>prevPerDiskStats := (prevPerDiskStats st)(dev \<mapsto>
               \<lparr>timestamp = now, readBytes = read_cur cur, writeBytes = write_cur cur\<rparr>)\<rparr>,
          stats))"

definition diskSection :: "(nat \<Rightarrow> int) \<Rightarrow> string \<Rightarrow> pass_state \<Rightarrow> pass_state" where
  "diskSection clk diskstatsContent ps =
     (let (st, stats) = ps;
          (now, st0) = dateNow clk st;
          (totalRead, totalWrite, currentPerDisk) = diskLines diskstatsContent
      in foldl (perDiskStep clk now)
           (diskAggregate now totalRead totalWrite (st0, stats)) currentPerDisk)"

section \<open>Network\<close>

type_synonym net_acc = "jsnum \<times> jsnum \<times> (string \<times> NetCounters) list"

text \<open>
  The service keeps its per-entity maps in plain objects, and a plain object inherits
  the properties of \<open>Object.prototype\<close>. A map of the model holds the own properties of
  the object; the names below are the ones for which a read \<open>obj[name]\<close> finds an
  inherited value when there is no own property: the methods of \<open>Object.prototype\<close>
  (functions, which are truthy and have no property \<open>timestamp\<close>, \<open>sent\<close> or \<open>recv\<close>)
  and the accessor \<open>__proto__\<close> (which reads as \<open>Object.prototype\<close> itself). The
  assignment \<open>obj[name] = v\<close> creates an own property for each of them but \<open>__proto__\<close>,
  where it sets the prototype of \<open>obj\<close> and creates no property.
\<close>

definition inheritedNames :: "string list" where
  "inheritedNames =
     [''constructor'', ''hasOwnProperty'', ''isPrototypeOf'', ''propertyIsEnumerable'',
      ''toLocaleString'', ''toString'', ''valueOf'', ''__defineGetter__'', ''__defineSetter__'',
      ''__lookupGetter__'', ''__lookupSetter__'', ''__proto__'']"

text \<open>
  One line of \<open>/proc/net/dev\<close>; \<open>parts[0].replace(':', '')\<close> removes the first colon.
  The accumulator is \<open>(totalSent, totalRecv, currentPerIface)\<close>. The counters of every
  interface but \<open>lo\<close> are added to the totals; \<open>currentPerIface[iface] = { sent, recv }\<close>
  creates or overwrites the own property \<open>iface\<close>, except for the name \<open>__proto__\<close>, which
  never becomes a property and so is never listed by \<open>Object.entries\<close>.
\<close>

definition netLine :: "net_acc \<Rightarrow> string \<Rightarrow> net_acc" where
  "netLine acc line =
     (let (totalSent, totalRecv, currentPerIface) = acc;
          parts = splitWs (trim line)
      in if length parts \<ge> 10 then
           (let iface = remove1 CHR '':'' (parts ! 0)
            in if iface = ''lo'' then acc
               else (let rc = parseInt (parts ! 1);
                         sn = parseInt (parts ! 9)
                     in (js_add totalSent sn, js_add totalRecv rc,
                         if iface = ''__proto__'' then currentPerIface
                         else AList.update iface \<lparr>sent_cur = sn, recv_cur = rc\<rparr> currentPerIface)))
         else acc)"

definition netLines :: "string \<Rightarrow> net_acc" where
  "netLines netContent = foldl netLine (Num 0, Num 0, []) (drop 2 (splitOn CHR 0x0A netContent))"

definition netAggregate :: "int \<Rightarrow> jsnum \<Rightarrow> jsnum \<Rightarrow> pass_state \<Rightarrow> pass_state" where
  "netAggregate now totalSent totalRecv ps =
     (let (st, stats) = ps;
          stats1 = (case prevNetStats st of
                      Some p \<Rightarrow>
                        (let dt = elapsedSec now (timestamp p)
                         in if js_gt dt (Num 0)
                            then stats\<lparr>networkSentRate := kbRate totalSent (sent p) dt,
                                       networkRecvRate := kbRate totalRecv (recv p) dt\<rparr>
                            else stats)
                    | None \<Rightarrow> stats)
      in (st\<lparr>prevNetStats := Some \<lparr>timestamp = now, sent = totalSent, recv = totalRecv\<rparr>\<rparr>,
          stats1))"

text \<open>
  \<open>Object.entries(obj)\<close> lists the own properties whose names are array indices (the
  decimal numerals without a leading zero, up to \<open>2^32 - 2\<close>) first, in ascending
  numeric order, and the other properties after them in the order in which they were
  created. An interface may bear such a name; the device names that pass the test of the
  disk section start with a letter, so \<open>Object.entries(currentPerDisk)\<close> is the order of
  creation.
\<close>

definition isArrayIndex :: "string \<Rightarrow> bool" where
  "isArrayIndex k =
     (k \<noteq> [] \<and> list_all isDigit k \<and> (length k = 1 \<or> hd k \<noteq> CHR ''0'')
      \<and> decimal k < 4294967295)"

definition objectEntries :: "(string \<times> 'a) list \<Rightarrow> (string \<times> 'a) list" where
  "objectEntries al =
     sort_key (\<lambda>e. decimal (fst e)) (filter (\<lambda>e. isArrayIndex (fst e)) al)
       @ filter (\<lambda>e. \<not> isArrayIndex (fst e)) al"

text \<open>
  The body of the \<open>try\<close> block either runs to its end or throws; in both cases the
  state reached so far is kept, since the \<open>catch\<close> block only logs the error.
\<close>

datatype completion = Normal pass_state | Thrown pass_state

fun stateOf :: "completion \<Rightarrow> pass_state" where
  "stateOf (Normal ps) = ps"
| "stateOf (Thrown ps) = ps"

text \<open>
  The rate sample of one interface. The test \<open>if (prevPerIfaceStats[iface])\<close> succeeds on
  an own snapshot; on an inherited value it succeeds as well, but then
  \<open>prevPerIfaceStats[iface].timestamp\<close> is \<open>undefined\<close>, the elapsed time is \<open>NaN\<close> and
  the test \<open>dt > 0\<close> fails, which is what happens with no snapshot at all. With an own
  snapshot and \<open>dt > 0\<close> the sample is written to \<open>stats.perIfaceStats\<close> first. Then
  \<open>if (!perIfaceHistories[iface])\<close> creates the history unless the read finds a value:
  for an inherited name without an own history the value found is inherited, nothing is
  created, \<open>perIfaceHistories[iface].sent\<close> is \<open>undefined\<close> and
  \<open>addHistoryPoint(undefined, sentRate)\<close> throws a \<open>TypeError\<close> at \<open>arr.push\<close>, before
  the clock is read.
\<close>

definition perIfaceRates :: "(nat \<Rightarrow> int) \<Rightarrow> int \<Rightarrow> string \<Rightarrow> NetCounters \<Rightarrow> pass_state \<Rightarrow> completion" where
  "perIfaceRates clk now iface cur ps =
     (let (st, stats) = ps
      in case prevPerIfaceStats st iface of
           None \<Rightarrow> Normal ps
         | Some p \<Rightarrow>
             (let dt = elapsedSec now (timestamp p)
              in if js_gt dt (Num 0) then
                   (let sr = kbRate (sent_cur cur) (sent p) dt;
                        rr = kbRate (recv_cur cur) (recv p) dt;
                        stats1 = stats\<lparr>perIfaceStats :=
                                   (perIfaceStats stats)(iface \<mapsto> \<lparr>sentRate = sr, recvRate = rr\<rparr>)\<rparr>
                    in case perIfaceHistories st iface of
                         None \<Rightarrow>
                           if iface \<in> set inheritedNames then Thrown (st, stats1)
                           else (let (t1, st1) = dateNow clk st;
                                     (t2, st2) = dateNow clk st1;
                                     h1 = \<lparr>sent_hist = addHistoryPoint [] t1 sr,
                                           recv_hist = addHistoryPoint [] t2 rr\<rparr>
                                 in Normal (st2\<lparr>perIfaceHistories :=
                                              (perIfaceHistories st2)(iface \<mapsto> h1)\<rparr>, stats1))
                       | Some h \<Rightarrow>
                           (let (t1, st1) = dateNow clk st;
                                (t2, st2) = dateNow clk st1;
                                h1 = \<lparr>sent_hist = addHistoryPoint (sent_hist h) t1 sr,
                                      recv_hist = addHistoryPoint (recv_hist h) t2 rr\<rparr>
                            in Normal (st2\<lparr>perIfaceHistories :=
                                         (perIfaceHistories st2)(iface \<mapsto> h1)\<rparr>, stats1)))
                 else Normal ps))"

text \<open>
  One round of the loop over \<open>Object.entries(currentPerIface)\<close>: the sample, then the
  snapshot \<open>prevPerIfaceStats[iface] = { sent, recv, timestamp: now }\<close>. Once the body has
  thrown, neither this interface nor a later one is processed or stored.
\<close>

definition perIfaceStep :: "(nat \<Rightarrow> int) \<Rightarrow> int \<Rightarrow> completion \<Rightarrow> string \<times> NetCounters \<Rightarrow> completion" where
  "perIfaceStep clk now c e =
     (case c of
        Thrown ps \<Rightarrow> Thrown ps
      | Normal ps \<Rightarrow>
          (let (iface, cur) = e
           in case perIfaceRates clk now iface cur ps of
                Thrown ps1 \<Rightarrow> Thrown ps1
              | Normal (st, stats) \<Rightarrow>
                  Normal (st\<lparr>prevPerIfaceStats := (prevPerIfaceStats st)(iface \<mapsto>
                            \<lparr>timestamp = now, sent = sent_cur cur, recv = recv_cur cur\<rparr>)\<rparr>,
                          stats)))"

definition networkSection :: "(nat \<Rightarrow> int) \<Rightarrow> string \<Rightarrow> pass_state \<Rightarrow> completion" where
  "networkSection clk netContent ps =
     (let (st, stats) = ps;
          (now, st0) = dateNow clk st;
          (totalSent, totalRecv, currentPerIface) = netLines netContent
      in foldl (perIfaceStep clk now)
           (Normal (netAggregate now totalSent totalRecv (st0, stats)))
           (objectEntries currentPerIface))"

section \<open>One sampling pass\<close>

text \<open>
  The six appends that end every pass, each with its own reading of the clock. The memory
  point is \<open>memoryTotal > 0 ? (memoryUsed / memoryTotal) * 100 : 0\<close>.
\<close>

definition memoryPercent :: "SystemStats \<Rightarrow> jsnum" where
  "memoryPercent stats =
     (if js_gt (memoryTotal stats) (Num 0)
      then dbl_mul (dbl_div (memoryUsed stats) (memoryTotal stats)) (Num 100)
      else Num 0)"

definition updateHistory :: "(nat \<Rightarrow> int) \<Rightarrow> pass_state \<Rightarrow> pass_state" where
  "updateHistory clk ps =
     (let (st, stats) = ps;
          n = clockReads st;
          h = history st
      in (st\<lparr>history :=
               \<lparr>cpu = addHistoryPoint (cpu h) (clk n) (cpuUsage stats),
                memory = addHistoryPoint (memory h) (clk (n + 1)) (memoryPercent stats),
                diskRead = addHistoryPoint (diskRead h) (clk (n + 2)) (diskReadRate stats),
                diskWrite = addHistoryPoint (diskWrite h) (clk (n + 3)) (diskWriteRate stats),
                networkSent = addHistoryPoint (networkSent h) (clk (n + 4)) (networkSentRate stats),
                networkRecv = addHistoryPoint (networkRecv h) (clk (n + 5)) (networkRecvRate stats)\<rparr>,
             clockReads := n + 6\<rparr>,
          stats))"

text \<open>
  What \<open>cockpit.file(path).read()\<close> settles to: the promise is rejected, or it resolves
  with the content (\<open>null\<close> for a file that does not exist). \<open>Promise.all\<close> rejects as
  soon as one of its promises does, and control passes to the \<open>catch\<close> block, which logs.
\<close>

datatype read_result = Rejected | Resolved "string option"

record ProcReads =
  stat_read :: read_result
  meminfo_read :: read_result
  uptime_read :: read_result
  loadavg_read :: read_result
  diskstats_read :: read_result
  net_read :: read_result

text \<open>\<open>if (content) \<dots>\<close>: \<open>null\<close> and the empty string are falsy.\<close>

definition ifContent :: "string option \<Rightarrow> (string \<Rightarrow> 'a \<Rightarrow> 'a) \<Rightarrow> 'a \<Rightarrow> 'a" where
  "ifContent content f x = (case content of None \<Rightarrow> x | Some s \<Rightarrow> if s = [] then x else f s x)"

text \<open>
  The body of the \<open>try\<close> block after \<open>Promise.all\<close> has resolved. Only the network
  section can throw: the disk section is the same code, but it runs on device names that
  passed the test \<open>/^(sd|nvme|vd|xvd|hd)[a-z]/\<close>, none of which is inherited.
\<close>

definition processFamilies ::
  "(nat \<Rightarrow> int) \<Rightarrow> string option \<Rightarrow> string option \<Rightarrow> string option \<Rightarrow> string option \<Rightarrow>
   string option \<Rightarrow> string option \<Rightarrow> pass_state \<Rightarrow> completion" where
  "processFamilies clk statContent meminfoContent uptimeContent loadavgContent
       diskstatsContent netContent ps =
     (let ps5 = ifContent diskstatsContent (diskSection clk)
                 (ifContent loadavgContent (\<lambda>s. apsnd (loadSection s))
                   (ifContent uptimeContent (\<lambda>s. apsnd (uptimeSection s))
                     (ifContent meminfoContent (\<lambda>s. apsnd (memorySection s))
                       (ifContent statContent (cpuSection clk) ps))))
      in case netContent of
           None \<Rightarrow> Normal ps5
         | Some s \<Rightarrow> if s = [] then Normal ps5 else networkSection clk s ps5)"

text \<open>
  \<open>fetchSystemStats()\<close>: the returned \<open>stats\<close> and the state after the call. The function
  catches every rejection and every error thrown in the body itself, so the result is
  always a value; after the \<open>catch\<close> the six aggregate histories receive their points
  from \<open>stats\<close> as it is then.
\<close>

definition fetchSystemStats :: "(nat \<Rightarrow> int) \<Rightarrow> ProcReads \<Rightarrow> Engine \<Rightarrow> SystemStats \<times> Engine" where
  "fetchSystemStats clk reads st =
     (let ps0 = (st, initialStats);
          ps1 = (case (stat_read reads, meminfo_read reads, uptime_read reads,
                       loadavg_read reads, diskstats_read reads, net_read reads) of
                   (Resolved a, Resolved b, Resolved c, Resolved d, Resolved e, Resolved f) \<Rightarrow>
                     stateOf (processFamilies clk a b c d e f ps0)
                 | _ \<Rightarrow> ps0);
          (st2, stats2) = updateHistory clk ps1
      in (stats2, st2))"

section \<open>The accessors\<close>

text \<open>
  \<open>history\<close> is one object whose six fields refer to six arrays, and \<open>addHistoryPoint\<close>
  changes an array in place. For the accessors the arrays are therefore kept in a store,
  addressed by references. \<open>getSystemHistory\<close> returns \<open>{ ...history }\<close>: a new object
  with the same six references. The other accessors build their result from
  \<open>[...hist.read]\<close> and the like, arrays of their own with the elements of the internal
  ones; they are returned by value below.
\<close>

type_synonym addr = nat

record SystemHistoryRef =
  cpu_ref :: addr
  memory_ref :: addr
  diskRead_ref :: addr
  diskWrite_ref :: addr
  networkSent_ref :: addr
  networkRecv_ref :: addr

record RefEngine =
  arrays :: "addr \<Rightarrow> HistoryPoint list"
  historyRef :: SystemHistoryRef
  vars :: Engine

definition loadHistory :: "(addr \<Rightarrow> HistoryPoint list) \<Rightarrow> SystemHistoryRef \<Rightarrow> SystemHistory" where
  "loadHistory m r =
     \<lparr>cpu = m (cpu_ref r), memory = m (memory_ref r), diskRead = m (diskRead_ref r),
      diskWrite = m (diskWrite_ref r), networkSent = m (networkSent_ref r),
      networkRecv = m (networkRecv_ref r)\<rparr>"

definition storeHistory ::
  "SystemHistoryRef \<Rightarrow> SystemHistory \<Rightarrow> (addr \<Rightarrow> HistoryPoint list) \<Rightarrow> (addr \<Rightarrow> HistoryPoint list)" where
  "storeHistory r h m =
     m(cpu_ref r := cpu h, memory_ref r := memory h, diskRead_ref r := diskRead h,
       diskWrite_ref r := diskWrite h, networkSent_ref r := networkSent h,
       networkRecv_ref r := networkRecv h)"

text \<open>The module as it is loaded: six empty arrays, at the addresses 0 to 5.\<close>

definition initialRefEngine :: RefEngine where
  "initialRefEngine =
     \<lparr>arrays = (\<lambda>a. []),
      historyRef = \<lparr>cpu_ref = 0, memory_ref = 1, diskRead_ref = 2, diskWrite_ref = 3,
                    networkSent_ref = 4, networkRecv_ref = 5\<rparr>,
      vars = initialEngine\<rparr>"

text \<open>
  A pass on the store: the pass runs on the arrays the references of \<open>history\<close> lead to,
  and what it appends is written to these very arrays.
\<close>

definition fetchSystemStats_ref ::
  "(nat \<Rightarrow> int) \<Rightarrow> ProcReads \<Rightarrow> RefEngine \<Rightarrow> SystemStats \<times> RefEngine" where
  "fetchSystemStats_ref clk reads e =
     (let (stats, st) =
            fetchSystemStats clk reads ((vars e)\<lparr>history := loadHistory (arrays e) (historyRef e)\<rparr>)
      in (stats, e\<lparr>arrays := storeHistory (historyRef e) (history st) (arrays e), vars := st\<rparr>))"

definition getSystemHistory :: "RefEngine \<Rightarrow> SystemHistoryRef" where
  "getSystemHistory e = historyRef e"

definition getPerDiskHistory :: "RefEngine \<Rightarrow> (string \<rightharpoonup> DiskHistory)" where
  "getPerDiskHistory e = perDiskHistories (vars e)"

definition getPerIfaceHistory :: "RefEngine \<Rightarrow> (string \<rightharpoonup> IfaceHistory)" where
  "getPerIfaceHistory e = perIfaceHistories (vars e)"

definition getPerCoreHistory :: "RefEngine \<Rightarrow> (nat \<rightharpoonup> HistoryPoint list)" where
  "getPerCoreHistory e = perCoreHistories (vars e)"

text \<open>What a caller does with a reference it holds: \<open>arr.push(p)\<close>.\<close>

definition callerPush :: "addr \<Rightarrow> HistoryPoint \<Rightarrow> RefEngine \<Rightarrow> RefEngine" where
  "callerPush a p e = e\<lparr>arrays := (arrays e)(a := arrays e a @ [p])\<rparr>"

section \<open>Per-process I/O rates\<close>

text \<open>
  The rate computation of \<open>fetchProcesses\<close> for one process: \<open>io\<close> is \<open>ioData[pid]\<close>
  and \<open>prev\<close> is \<open>prevIoStats[pid]\<close>. The result is \<open>diskRead\<close>, \<open>diskWrite\<close> and the
  new \<open>prevIoStats[pid]\<close>.
\<close>

record IoBytes =
  ioReadBytes :: jsnum
  ioWriteBytes :: jsnum

definition processIoRates ::
  "int \<Rightarrow> IoBytes option \<Rightarrow> DiskSnapshot option \<Rightarrow> jsnum \<times> jsnum \<times> DiskSnapshot option" where
  "processIoRates now io prev =
     (let (diskRd, diskWr) =
            (case (io, prev) of
               (Some i, Some p) \<Rightarrow>
                 (let dt = elapsedSec now (timestamp p)
                  in if js_gt dt (Num 0)
                     then (kbRate (ioReadBytes i) (readBytes p) dt,
                           kbRate (ioWriteBytes i) (writeBytes p) dt)
                     else (Num 0, Num 0))
             | _ \<Rightarrow> (Num 0, Num 0))
      in (diskRd, diskWr,
          (case io of
             Some i \<Rightarrow> Some \<lparr>timestamp = now, readBytes = ioReadBytes i, writeBytes = ioWriteBytes i\<rparr>
           | None \<Rightarrow> prev)))"

section \<open>Notions used in the statements\<close>

text \<open>
  The variables and the outputs of the disk family and of the network family; the rate
  sample a pass emits for an entity with the previous snapshot \<open>p\<close>, if any; the snapshot
  it stores; the entities a pass finds in the content it reads, in the order of their
  first line (for the interfaces: in the order of \<open>Object.entries\<close>), and the set of
  their keys.
\<close>

definition diskVars :: "Engine \<Rightarrow> DiskSnapshot option \<times> (string \<rightharpoonup> DiskSnapshot) \<times> (string \<rightharpoonup> DiskHistory)" where
  "diskVars st = (prevDiskStats st, prevPerDiskStats st, perDiskHistories st)"

definition netVars :: "Engine \<Rightarrow> NetSnapshot option \<times> (string \<rightharpoonup> NetSnapshot) \<times> (string \<rightharpoonup> IfaceHistory)" where
  "netVars st = (prevNetStats st, prevPerIfaceStats st, perIfaceHistories st)"

definition diskOut :: "SystemStats \<Rightarrow> jsnum \<times> jsnum \<times> (string \<rightharpoonup> DiskRate)" where
  "diskOut s = (diskReadRate s, diskWriteRate s, perDiskStats s)"

definition netOut :: "SystemStats \<Rightarrow> jsnum \<times> jsnum \<times> (string \<rightharpoonup> IfaceRate)" where
  "netOut s = (networkSentRate s, networkRecvRate s, perIfaceStats s)"

definition perDiskSample :: "int \<Rightarrow> DiskCounters \<Rightarrow> DiskSnapshot \<Rightarrow> DiskRate option" where
  "perDiskSample now cur p =
     (if js_gt (elapsedSec now (timestamp p)) (Num 0)
      then Some \<lparr>readRate = kbRate (read_cur cur) (readBytes p) (elapsedSec now (timestamp p)),
                 writeRate = kbRate (write_cur cur) (writeBytes p) (elapsedSec now (timestamp p))\<rparr>
      else None)"

definition perIfaceSample :: "int \<Rightarrow> NetCounters \<Rightarrow> NetSnapshot \<Rightarrow> IfaceRate option" where
  "perIfaceSample now cur p =
     (if js_gt (elapsedSec now (timestamp p)) (Num 0)
      then Some \<lparr>sentRate = kbRate (sent_cur cur) (sent p) (elapsedSec now (timestamp p)),
                 recvRate = kbRate (recv_cur cur) (recv p) (elapsedSec now (timestamp p))\<rparr>
      else None)"

definition diskBaseline :: "int \<Rightarrow> DiskCounters \<Rightarrow> DiskSnapshot" where
  "diskBaseline now cur = \<lparr>timestamp = now, readBytes = read_cur cur, writeBytes = write_cur cur\<rparr>"

definition netBaseline :: "int \<Rightarrow> NetCounters \<Rightarrow> NetSnapshot" where
  "netBaseline now cur = \<lparr>timestamp = now, sent = sent_cur cur, recv = recv_cur cur\<rparr>"

definition currentPerDisk :: "string \<Rightarrow> (string \<times> DiskCounters) list" where
  "currentPerDisk c = snd (snd (diskLines c))"

definition currentPerIface :: "string \<Rightarrow> (string \<times> NetCounters) list" where
  "currentPerIface c = objectEntries (snd (snd (netLines c)))"


definition netKeys :: "string \<Rightarrow> string set" where
  "netKeys c = fst ` set (currentPerIface c)"

text \<open>
  The state in which the network section leaves the pass, whether it ran to its end or
  threw. The interface a line of \<open>/proc/net/dev\<close> reports, if the line counts (ten
  fields or more, not \<open>lo\<close>), and the set of the interfaces a content reports; it
  differs from \<open>netKeys\<close> by the name \<open>__proto__\<close> alone. A content has plain names
  when no interface it reports bears an inherited name.
\<close>

definition netRun :: "(nat \<Rightarrow> int) \<Rightarrow> string \<Rightarrow> pass_state \<Rightarrow> pass_state" where
  "netRun clk netContent ps = stateOf (networkSection clk netContent ps)"

definition ifaceOfLine :: "string \<Rightarrow> string option" where
  "ifaceOfLine line =
     (let parts = splitWs (trim line)
      in if length parts \<ge> 10 \<and> remove1 CHR '':'' (parts ! 0) \<noteq> ''lo''
         then Some (remove1 CHR '':'' (parts ! 0)) else None)"

definition reportedIfaces :: "string \<Rightarrow> string set" where
  "reportedIfaces c = set (List.map_filter ifaceOfLine (drop 2 (splitOn CHR 0x0A c)))"

definition plainNames :: "string \<Rightarrow> bool" where
  "plainNames c = (\<forall>n \<in> reportedIfaces c. n \<notin> set inheritedNames)"

text \<open>
  The loop over the interfaces where nothing is thrown: a function on pass states. It is
  the loop of \<open>networkSection\<close> on every content in which no listed interface bears an
  inherited name (lemma \<open>networkSection_plain_eq\<close>), and serves to reason about such
  passes.
\<close>

definition perIfaceRates_plain :: "(nat \<Rightarrow> int) \<Rightarrow> int \<Rightarrow> string \<Rightarrow> NetCounters \<Rightarrow> pass_state \<Rightarrow> pass_state" where
  "perIfaceRates_plain clk now iface cur ps =
     (let (st, stats) = ps
      in case prevPerIfaceStats st iface of
           None \<Rightarrow> ps
         | Some p \<Rightarrow>
             (let dt = elapsedSec now (timestamp p)
              in if js_gt dt (Num 0) then
                   (let sr = kbRate (sent_cur cur) (sent p) dt;
                        rr = kbRate (recv_cur cur) (recv p) dt;
                        h = (case perIfaceHistories st iface of
                               None \<Rightarrow> \<lparr>sent_hist = [], recv_hist = []\<rparr>
                             | Some h0 \<Rightarrow> h0);
                        (t1, st1) = dateNow clk st;
                        (t2, st2) = dateNow clk st1;
                        h1 = \<lparr>sent_hist = addHistoryPoint (sent_hist h) t1 sr,
                              recv_hist = addHistoryPoint (recv_hist h) t2 rr\<rparr>
                    in (st2\<lparr>perIfaceHistories := (perIfaceHistories st2)(iface \<mapsto> h1)\<rparr>,
                        stats\<lparr>perIfaceStats :=
                                (perIfaceStats stats)(iface \<mapsto> \<lparr>sentRate = sr, recvRate = rr\<rparr>)\<rparr>))
                 else ps))"

definition perIfaceStep_plain :: "(nat \<Rightarrow> int) \<Rightarrow> int \<Rightarrow> pass_state \<Rightarrow> string \<times> NetCounters \<Rightarrow> pass_state" where
  "perIfaceStep_plain clk now ps e =
     (let (iface, cur) = e;
          (st, stats) = perIfaceRates_plain clk now iface cur ps
      in (st\<lparr>prevPerIfaceStats := (prevPerIfaceStats st)(iface \<mapsto>
               \<lparr>timestamp = now, sent = sent_cur cur, recv = recv_cur cur\<rparr>)\<rparr>,
          stats))"

definition networkSection_plain :: "(nat \<Rightarrow> int) \<Rightarrow> string \<Rightarrow> pass_state \<Rightarrow> pass_state" where
  "networkSection_plain clk netContent ps =
     (let (st, stats) = ps;
          (now, st0) = dateNow clk st;
          (totalSent, totalRecv, currentPerIface) = netLines netContent
      in foldl (perIfaceStep_plain clk now)
           (netAggregate now totalSent totalRecv (st0, stats)) (objectEntries currentPerIface))"

text \<open>
  A pass in which every read resolves; the state and the \<open>stats\<close> object as the disk
  section finds them; and the relation of two pass states that agree on the disk and
  network families and on the aggregate histories.
\<close>

definition beforeDisk ::
  "(nat \<Rightarrow> int) \<Rightarrow> string option \<Rightarrow> string option \<Rightarrow> string option \<Rightarrow> string option \<Rightarrow>
   Engine \<Rightarrow> pass_state" where
  "beforeDisk clk statContent meminfoContent uptimeContent loadavgContent st =
     ifContent loadavgContent (\<lambda>s. apsnd (loadSection s))
       (ifContent uptimeContent (\<lambda>s. apsnd (uptimeSection s))
         (ifContent meminfoContent (\<lambda>s. apsnd (memorySection s))
           (ifContent statContent (cpuSection clk) (st, initialStats))))"

definition resolvedReads ::
  "string option \<Rightarrow> string option \<Rightarrow> string option \<Rightarrow> string option \<Rightarrow> string option \<Rightarrow>
   string option \<Rightarrow> ProcReads" where
  "resolvedReads a b c d e f =
     \<lparr>stat_read = Resolved a, meminfo_read = Resolved b, uptime_read = Resolved c,
      loadavg_read = Resolved d, diskstats_read = Resolved e, net_read = Resolved f\<rparr>"

definition sameBut :: "pass_state \<Rightarrow> pass_state \<Rightarrow> bool" where
  "sameBut ps qs \<longleftrightarrow>
     diskVars (fst ps) = diskVars (fst qs) \<and> netVars (fst ps) = netVars (fst qs)
     \<and> history (fst ps) = history (fst qs) \<and> clockReads (fst qs) \<le> clockReads (fst ps)
     \<and> diskOut (snd ps) = diskOut (snd qs) \<and> netOut (snd ps) = netOut (snd qs)"

text \<open>
  A line of tick counts as the numbers \<open>parseCpuLine\<close> returns for it; the sum of the
  line and its idle part (idle plus iowait, the fourth and the fifth number).
\<close>

definition tickNums :: "nat list \<Rightarrow> jsnum list" where
  "tickNums ts = map (\<lambda>n. Num (of_nat n)) ts"

definition tickTotal :: "nat list \<Rightarrow> rat" where
  "tickTotal ts = of_nat (sum_list ts)"

definition tickIdle :: "nat list \<Rightarrow> rat" where
  "tickIdle ts = of_nat (ts ! 3 + (if 4 < length ts then ts ! 4 else 0))"

text \<open>
  A content of \<open>/proc/diskstats\<close> in which every device name ends in a digit, as on a
  system whose only disks are NVMe devices (\<open>nvme0n1\<close>, \<open>nvme0n1p1\<close>, \<open>loop0\<close>, \<open>dm-0\<close>);
  and a state whose aggregate disk snapshot, if there is one, holds the totals 0.
\<close>

definition namesEndInDigit :: "string \<Rightarrow> bool" where
  "namesEndInDigit e =
     (\<forall>l \<in> set (splitOn CHR 0x0A e).
        14 \<le> length (splitWs (trim l)) \<longrightarrow> endsInDigit (splitWs (trim l) ! 2))"

definition diskIdle :: "Engine \<Rightarrow> bool" where
  "diskIdle st =
     (case prevDiskStats st of
        None \<Rightarrow> True
      | Some p \<Rightarrow> readBytes p = Num 0 \<and> writeBytes p = Num 0)"

section \<open>Doubles that are integers\<close>

lemma dbl_zero: "dbl 0 = 0"
  by (simp add: dbl_def)

lemma dbl_minus: "dbl (- x) = - dbl x"
  by (simp add: dbl_def Let_def)

lemma roundHalfEven_of_int: "roundHalfEven (of_int j) = j"
  by (simp add: roundHalfEven_def)

lemma dbl_of_int_pos:
  assumes "0 < m" and "m < 2 ^ 53"
  shows "dbl (of_int m) = of_int m"
proof -
  define e where "e = bitlen m - 1"
  have "bitlen m \<le> 53"
    using assms(2) by (simp add: bitlen_le_iff_power)
  then have e: "0 \<le> 52 - e"
    by (simp add: e_def)
  have one: "(1::rat) \<le> of_int m"
    using assms(1) by simp
  have be: "binExponent (of_int m) = e"
    using one by (simp add: binExponent_def e_def)
  have "(2::rat) powi (52 - e) = 2 ^ nat (52 - e)"
    using e by (simp add: power_int_def)
  then have y: "(of_int m :: rat) * 2 powi (52 - e) = of_int (m * 2 ^ nat (52 - e))"
    by simp
  have cancel: "(2::rat) powi (52 - e) * 2 powi (e - 52) = 1"
    using power_int_add [of "2::rat" "52 - e" "e - 52"] by simp
  have "dbl (of_int m) = of_int (m * 2 ^ nat (52 - e)) * 2 powi (e - 52)"
    using assms(1) by (simp add: dbl_def be Let_def, simp only: y roundHalfEven_of_int, simp)
  also have "\<dots> = of_int m * ((2::rat) powi (52 - e) * 2 powi (e - 52))"
    using e by (simp add: power_int_def)
  also have "\<dots> = of_int m"
    unfolding cancel by simp
  finally show ?thesis .
qed

lemma dbl_of_int:
  assumes "\<bar>m\<bar> < 2 ^ 53"
  shows "dbl (of_int m) = of_int m"
proof -
  consider "m = 0" | "0 < m" | "m < 0" by linarith
  then show ?thesis
  proof cases
    case 1
    then show ?thesis by (simp add: dbl_zero)
  next
    case 2
    then show ?thesis using assms by (simp add: dbl_of_int_pos)
  next
    case 3
    then have "dbl (of_int (- m)) = of_int (- m)"
      using assms by (intro dbl_of_int_pos) simp_all
    then show ?thesis
      by (simp add: dbl_minus)
  qed
qed

lemma dbl_of_nat: "n < 2 ^ 53 \<Longrightarrow> dbl (of_nat n) = of_nat n"
  using dbl_of_int [of "int n"] by simp

lemma dbl_numeral: "(numeral k :: int) < 2 ^ 53 \<Longrightarrow> dbl (numeral k) = numeral k"
  using dbl_of_int [of "numeral k"] by simp

lemma dbl_one: "dbl 1 = 1"
  using dbl_of_int [of 1] by simp

lemma dbl_half: "dbl (1 / 2) = 1 / 2"
  by code_simp

section \<open>The history bound\<close>

lemma addHistoryPoint_drop:
  "length arr \<le> 60 \<Longrightarrow>
   addHistoryPoint arr t v = drop (length arr + 1 - 60) (arr @ [mkPoint (t, v)])"
proof -
  have tl: "tl xs = drop 1 xs" for xs :: "HistoryPoint list"
    by (simp add: drop_Suc)
  assume "length arr \<le> 60"
  then consider "length arr = 60" | "length arr < 60"
    by linarith
  then show ?thesis
    by cases (simp_all add: addHistoryPoint_def MAX_HISTORY_POINTS_def mkPoint_def Let_def tl)
qed

lemma addHistoryPoints_drop:
  "length arr \<le> 60 \<Longrightarrow>
   addHistoryPoints arr ps = drop (length arr + length ps - 60) (arr @ map mkPoint ps)"
proof (induction ps rule: rev_induct)
  case Nil
  then show ?case by (simp add: addHistoryPoints_def)
next
  case (snoc p ps)
  obtain t v where p: "p = (t, v)" by (cases p)
  let ?mid = "addHistoryPoints arr ps"
  have mid: "?mid = drop (length arr + length ps - 60) (arr @ map mkPoint ps)"
    using snoc by simp
  have len: "length ?mid \<le> 60"
    unfolding mid by simp
  have "addHistoryPoints arr (ps @ [p]) = addHistoryPoint ?mid t v"
    by (simp add: addHistoryPoints_def p)
  also have "\<dots> = drop (length ?mid + 1 - 60) (?mid @ [mkPoint (t, v)])"
    using len by (rule addHistoryPoint_drop)
  also have "\<dots> = drop (length arr + length (ps @ [p]) - 60) (arr @ map mkPoint (ps @ [p]))"
  proof -
    let ?k = "length arr + length ps - 60"
    let ?L = "arr @ map mkPoint ps"
    have k: "?k \<le> length ?L" by simp
    have app: "?mid @ [mkPoint (t, v)] = drop ?k (?L @ [mkPoint (t, v)])"
      unfolding mid using k by simp
    have idx: "length ?mid + 1 - 60 + ?k = length arr + length (ps @ [p]) - 60"
      unfolding mid by simp
    have L: "?L @ [mkPoint (t, v)] = arr @ map mkPoint (ps @ [p])"
      by (simp add: p)
    have "drop (length ?mid + 1 - 60) (?mid @ [mkPoint (t, v)])
          = drop (length ?mid + 1 - 60 + ?k) (?L @ [mkPoint (t, v)])"
      unfolding app by (rule drop_drop)
    then show ?thesis
      unfolding idx L .
  qed
  finally show ?case .
qed

text \<open>
  C4. Every stream starts as the empty array. After the appends \<open>ps\<close> (any number
  \<open>N = length ps\<close> of them, \<open>N = 0\<close> included) the stream holds \<open>min N 60\<close> points,
  they are the last \<open>min N 60\<close> points appended, in the order of appending, and the
  length is at most 60; the statement holds for every \<open>ps\<close>, hence after every single
  append of a longer run.
\<close>

theorem history_bound:
  "length (addHistoryPoints [] ps) = min (length ps) 60
   \<and> addHistoryPoints [] ps = drop (length ps - min (length ps) 60) (map mkPoint ps)
   \<and> length (addHistoryPoints [] ps) \<le> 60"
proof -
  have eq: "addHistoryPoints [] ps = drop (length ps - 60) (map mkPoint ps)"
    using addHistoryPoints_drop [of "[]" ps] by simp
  have m: "length ps - min (length ps) 60 = length ps - 60"
    by simp
  show ?thesis
    unfolding m eq by auto
qed

section \<open>Rates are never negative\<close>

lemma kbRate_Num:
  "0 < d \<Longrightarrow> kbRate (Num c) (Num p) (Num d) = Num (max 0 ((c - p) / 1024 / d))"
  by (simp add: kbRate_def)

lemma elapsed_pos: "t0 < t1 \<Longrightarrow> js_gt (elapsedSec t1 t0) (Num 0)"
  by (simp add: elapsedSec_def)

lemma elapsed_nonpos: "t1 \<le> t0 \<Longrightarrow> \<not> js_gt (elapsedSec t1 t0) (Num 0)"
  by (simp add: elapsedSec_def divide_le_0_iff not_less)

text \<open>
  C5. Let the previous snapshot hold the counters \<open>p1\<close>, \<open>p2\<close> and the time \<open>t0\<close>, and
  let the pass read the counters \<open>c1\<close>, \<open>c2\<close> at the time \<open>t1 > t0\<close>. Then the two rates
  are numbers \<open>x \<ge> 0\<close> and \<open>y \<ge> 0\<close>, with \<open>x = 0\<close> when \<open>c1 < p1\<close> and \<open>y = 0\<close> when
  \<open>c2 < p2\<close> (a counter that went back); the aggregate disk rates, the rates of a disk
  device, the aggregate network rates and the rates of an interface are these same
  numbers. The counters need not be non-negative for this.
\<close>

theorem rate_non_negative:
  assumes "t0 < t1"
  shows "\<exists>x y. 0 \<le> x \<and> 0 \<le> y \<and> (c1 < p1 \<longrightarrow> x = 0) \<and> (c2 < p2 \<longrightarrow> y = 0)
     \<and> diskReadRate (snd (diskAggregate t1 (Num c1) (Num c2)
          (st\<lparr>prevDiskStats :=
                Some \<lparr>timestamp = t0, readBytes = Num p1, writeBytes = Num p2\<rparr>\<rparr>, stats))) = Num x
     \<and> diskWriteRate (snd (diskAggregate t1 (Num c1) (Num c2)
          (st\<lparr>prevDiskStats :=
                Some \<lparr>timestamp = t0, readBytes = Num p1, writeBytes = Num p2\<rparr>\<rparr>, stats))) = Num y
     \<and> perDiskStats (snd (perDiskStep clk t1
          (st\<lparr>prevPerDiskStats := (prevPerDiskStats st)(k \<mapsto>
                \<lparr>timestamp = t0, readBytes = Num p1, writeBytes = Num p2\<rparr>)\<rparr>, stats)
          (k, \<lparr>read_cur = Num c1, write_cur = Num c2\<rparr>))) k
         = Some \<lparr>readRate = Num x, writeRate = Num y\<rparr>
     \<and> networkSentRate (snd (netAggregate t1 (Num c1) (Num c2)
          (st\<lparr>prevNetStats := Some \<lparr>timestamp = t0, sent = Num p1, recv = Num p2\<rparr>\<rparr>, stats))) = Num x
     \<and> networkRecvRate (snd (netAggregate t1 (Num c1) (Num c2)
          (st\<lparr>prevNetStats := Some \<lparr>timestamp = t0, sent = Num p1, recv = Num p2\<rparr>\<rparr>, stats))) = Num y
     \<and> perIfaceStats (snd (stateOf (perIfaceStep clk t1
          (Normal (st\<lparr>prevPerIfaceStats := (prevPerIfaceStats st)(k \<mapsto>
                \<lparr>timestamp = t0, sent = Num p1, recv = Num p2\<rparr>)\<rparr>, stats))
          (k, \<lparr>sent_cur = Num c1, recv_cur = Num c2\<rparr>)))) k
         = Some \<lparr>sentRate = Num x, recvRate = Num y\<rparr>"
proof -
  let ?d = "of_int (t1 - t0) / 1000 :: rat"
  have d: "0 < ?d" using assms by simp
  have gt: "js_gt (elapsedSec t1 t0) (Num 0)" using assms by (rule elapsed_pos)
  have el: "elapsedSec t1 t0 = Num ?d" by (simp add: elapsedSec_def)
  let ?x = "max 0 ((c1 - p1) / 1024 / ?d)"
  let ?y = "max 0 ((c2 - p2) / 1024 / ?d)"
  have neg: "max 0 ((c - p) / 1024 / ?d) = 0" if "c < p" for c p :: rat
  proof -
    have "(c - p) / 1024 \<le> 0" using that by simp
    then have "(c - p) / 1024 / ?d \<le> 0" using d by (rule divide_nonpos_pos)
    then show ?thesis by (rule max_absorb1)
  qed
  have x0: "c1 < p1 \<Longrightarrow> ?x = 0" by (rule neg)
  have y0: "c2 < p2 \<Longrightarrow> ?y = 0" by (rule neg)
  have kx: "kbRate (Num c1) (Num p1) (elapsedSec t1 t0) = Num ?x"
    unfolding el using d by (rule kbRate_Num)
  have ky: "kbRate (Num c2) (Num p2) (elapsedSec t1 t0) = Num ?y"
    unfolding el using d by (rule kbRate_Num)
  show ?thesis
    apply (rule exI [of _ ?x], rule exI [of _ ?y])
    using gt kx ky x0 y0
    by (simp add: diskAggregate_def netAggregate_def perDiskStep_def perDiskRates_def
        perIfaceStep_def perIfaceRates_def dateNow_def Let_def split_def split: option.split)
qed

text \<open>
  The theorem at a counter that went back (2048 to 1024) and one that grew (2048 to
  4096) over one second: the rates are 0 and 2 KB/s.
\<close>

theorem rate_non_negative_witness:
  "(0::int) < 1000
   \<and> diskReadRate (snd (diskAggregate 1000 (Num 1024) (Num 4096)
          (initialEngine\<lparr>prevDiskStats :=
             Some \<lparr>timestamp = 0, readBytes = Num 2048, writeBytes = Num 2048\<rparr>\<rparr>,
           initialStats))) = Num 0
   \<and> diskWriteRate (snd (diskAggregate 1000 (Num 1024) (Num 4096)
          (initialEngine\<lparr>prevDiskStats :=
             Some \<lparr>timestamp = 0, readBytes = Num 2048, writeBytes = Num 2048\<rparr>\<rparr>,
           initialStats))) = Num 2
   \<and> perIfaceStats (snd (stateOf (perIfaceStep (\<lambda>n. 1000) 1000
          (Normal (initialEngine\<lparr>prevPerIfaceStats := (prevPerIfaceStats initialEngine)(''eth0'' \<mapsto>
             \<lparr>timestamp = 0, sent = Num 2048, recv = Num 2048\<rparr>)\<rparr>, initialStats))
          (''eth0'', \<lparr>sent_cur = Num 1024, recv_cur = Num 4096\<rparr>)))) ''eth0''
       = Some \<lparr>sentRate = Num 0, recvRate = Num 2\<rparr>"
  using rate_non_negative [of 0 1000 1024 2048 4096 2048 initialEngine initialStats
      "\<lambda>n. 1000" "''eth0''"]
  by (simp add: diskAggregate_def perIfaceStep_def perIfaceRates_def inheritedNames_def dateNow_def
      Let_def elapsedSec_def kbRate_def initialEngine_def initialStats_def)

section \<open>What each part of a pass leaves unchanged, and what it stores\<close>

lemma perCoreHistory_frame:
  "diskVars (perCoreHistory clk i us st) = diskVars st
   \<and> netVars (perCoreHistory clk i us st) = netVars st
   \<and> history (perCoreHistory clk i us st) = history st
   \<and> clockReads st \<le> clockReads (perCoreHistory clk i us st)"
proof (induction us arbitrary: i st)
  case Nil
  show ?case by simp
next
  case (Cons u us)
  show ?case
    using Cons.IH [of "Suc i" "st\<lparr>clockReads := Suc (clockReads st),
         perCoreHistories := (perCoreHistories st)(i \<mapsto>
           addHistoryPoint (case perCoreHistories st i of None \<Rightarrow> [] | Some a \<Rightarrow> a)
             (clk (clockReads st)) u)\<rparr>"]
    by (simp add: dateNow_def Let_def diskVars_def netVars_def)
qed

lemma cpuSection_shape:
  "\<exists>us a b u n. cpuSection clk c (st, stats) =
     (perCoreHistory clk 0 us (st\<lparr>prevCpuTimes := a, prevPerCoreTimes := b\<rparr>),
      stats\<lparr>cpuUsage := u, cpuCores := n, cpuPerCore := us\<rparr>)"
  unfolding cpuSection_def Let_def split_def fst_conv snd_conv by blast

lemma cpuSection_frame:
  "diskVars (fst (cpuSection clk c ps)) = diskVars (fst ps)
   \<and> netVars (fst (cpuSection clk c ps)) = netVars (fst ps)
   \<and> history (fst (cpuSection clk c ps)) = history (fst ps)
   \<and> clockReads (fst ps) \<le> clockReads (fst (cpuSection clk c ps))
   \<and> diskOut (snd (cpuSection clk c ps)) = diskOut (snd ps)
   \<and> netOut (snd (cpuSection clk c ps)) = netOut (snd ps)"
proof -
  obtain st stats where ps: "ps = (st, stats)" by (cases ps)
  obtain us a b u n where sh: "cpuSection clk c (st, stats) =
     (perCoreHistory clk 0 us (st\<lparr>prevCpuTimes := a, prevPerCoreTimes := b\<rparr>),
      stats\<lparr>cpuUsage := u, cpuCores := n, cpuPerCore := us\<rparr>)"
    using cpuSection_shape by blast
  show ?thesis
    unfolding ps sh fst_conv snd_conv
    using perCoreHistory_frame [of clk 0 us "st\<lparr>prevCpuTimes := a, prevPerCoreTimes := b\<rparr>"]
    by (simp add: diskVars_def netVars_def diskOut_def netOut_def)
qed

lemma perDiskStep_frame:
  "netVars (fst (perDiskStep clk now ps e)) = netVars (fst ps)
   \<and> prevDiskStats (fst (perDiskStep clk now ps e)) = prevDiskStats (fst ps)
   \<and> history (fst (perDiskStep clk now ps e)) = history (fst ps)
   \<and> clockReads (fst ps) \<le> clockReads (fst (perDiskStep clk now ps e))
   \<and> netOut (snd (perDiskStep clk now ps e)) = netOut (snd ps)
   \<and> diskReadRate (snd (perDiskStep clk now ps e)) = diskReadRate (snd ps)
   \<and> diskWriteRate (snd (perDiskStep clk now ps e)) = diskWriteRate (snd ps)"
  by (cases ps; cases e)
     (simp add: perDiskStep_def perDiskRates_def dateNow_def Let_def split_def netVars_def
        netOut_def split: option.split)

lemma perDiskStep_other:
  "k \<noteq> fst e \<Longrightarrow>
   prevPerDiskStats (fst (perDiskStep clk now ps e)) k = prevPerDiskStats (fst ps) k
   \<and> perDiskHistories (fst (perDiskStep clk now ps e)) k = perDiskHistories (fst ps) k
   \<and> perDiskStats (snd (perDiskStep clk now ps e)) k = perDiskStats (snd ps) k"
  by (cases ps; cases e)
     (simp add: perDiskStep_def perDiskRates_def dateNow_def Let_def split_def
        split: option.split)

lemma perIfaceStep_plain_other:
  "k \<noteq> fst e \<Longrightarrow>
   prevPerIfaceStats (fst (perIfaceStep_plain clk now ps e)) k = prevPerIfaceStats (fst ps) k
   \<and> perIfaceHistories (fst (perIfaceStep_plain clk now ps e)) k = perIfaceHistories (fst ps) k
   \<and> perIfaceStats (snd (perIfaceStep_plain clk now ps e)) k = perIfaceStats (snd ps) k"
  by (cases ps; cases e)
     (simp add: perIfaceStep_plain_def perIfaceRates_plain_def dateNow_def Let_def split_def
        split: option.split)

lemma perDiskStep_self:
  "prevPerDiskStats (fst (perDiskStep clk now ps (k, cur))) k = Some (diskBaseline now cur)
   \<and> perDiskStats (snd (perDiskStep clk now ps (k, cur))) k =
       (case prevPerDiskStats (fst ps) k of
          None \<Rightarrow> perDiskStats (snd ps) k
        | Some p \<Rightarrow> (case perDiskSample now cur p of
                       None \<Rightarrow> perDiskStats (snd ps) k
                     | Some r \<Rightarrow> Some r))"
  by (cases ps)
     (simp add: perDiskStep_def perDiskRates_def dateNow_def Let_def split_def
        perDiskSample_def diskBaseline_def split: option.split)

lemma perIfaceStep_plain_self:
  "prevPerIfaceStats (fst (perIfaceStep_plain clk now ps (k, cur))) k = Some (netBaseline now cur)
   \<and> perIfaceStats (snd (perIfaceStep_plain clk now ps (k, cur))) k =
       (case prevPerIfaceStats (fst ps) k of
          None \<Rightarrow> perIfaceStats (snd ps) k
        | Some p \<Rightarrow> (case perIfaceSample now cur p of
                       None \<Rightarrow> perIfaceStats (snd ps) k
                     | Some r \<Rightarrow> Some r))"
  by (cases ps)
     (simp add: perIfaceStep_plain_def perIfaceRates_plain_def dateNow_def Let_def split_def
        perIfaceSample_def netBaseline_def split: option.split)

lemma foldl_perDiskStep_frame:
  "netVars (fst (foldl (perDiskStep clk now) ps al)) = netVars (fst ps)
   \<and> prevDiskStats (fst (foldl (perDiskStep clk now) ps al)) = prevDiskStats (fst ps)
   \<and> history (fst (foldl (perDiskStep clk now) ps al)) = history (fst ps)
   \<and> clockReads (fst ps) \<le> clockReads (fst (foldl (perDiskStep clk now) ps al))
   \<and> netOut (snd (foldl (perDiskStep clk now) ps al)) = netOut (snd ps)
   \<and> diskReadRate (snd (foldl (perDiskStep clk now) ps al)) = diskReadRate (snd ps)
   \<and> diskWriteRate (snd (foldl (perDiskStep clk now) ps al)) = diskWriteRate (snd ps)"
proof (induction al arbitrary: ps)
  case Nil
  show ?case by simp
next
  case (Cons e al)
  show ?case
    using Cons.IH [of "perDiskStep clk now ps e"] perDiskStep_frame [of clk now ps e]
    by simp
qed

lemma foldl_perDiskStep_other:
  "k \<notin> fst ` set al \<Longrightarrow>
   prevPerDiskStats (fst (foldl (perDiskStep clk now) ps al)) k = prevPerDiskStats (fst ps) k
   \<and> perDiskHistories (fst (foldl (perDiskStep clk now) ps al)) k = perDiskHistories (fst ps) k
   \<and> perDiskStats (snd (foldl (perDiskStep clk now) ps al)) k = perDiskStats (snd ps) k"
proof (induction al arbitrary: ps)
  case Nil
  show ?case by simp
next
  case (Cons e al)
  from Cons.prems have k: "k \<noteq> fst e" and rest: "k \<notin> fst ` set al" by auto
  show ?case
    using Cons.IH [OF rest, of "perDiskStep clk now ps e"] perDiskStep_other [OF k, of clk now ps]
    by simp
qed

lemma foldl_perIfaceStep_plain_other:
  "k \<notin> fst ` set al \<Longrightarrow>
   prevPerIfaceStats (fst (foldl (perIfaceStep_plain clk now) ps al)) k = prevPerIfaceStats (fst ps) k
   \<and> perIfaceHistories (fst (foldl (perIfaceStep_plain clk now) ps al)) k = perIfaceHistories (fst ps) k
   \<and> perIfaceStats (snd (foldl (perIfaceStep_plain clk now) ps al)) k = perIfaceStats (snd ps) k"
proof (induction al arbitrary: ps)
  case Nil
  show ?case by simp
next
  case (Cons e al)
  from Cons.prems have k: "k \<noteq> fst e" and rest: "k \<notin> fst ` set al" by auto
  show ?case
    using Cons.IH [OF rest, of "perIfaceStep_plain clk now ps e"] perIfaceStep_plain_other [OF k, of clk now ps]
    by simp
qed



lemma foldl_perDiskStep_self:
  "distinct (map fst al) \<Longrightarrow> (k, cur) \<in> set al \<Longrightarrow>
   prevPerDiskStats (fst (foldl (perDiskStep clk now) ps al)) k = Some (diskBaseline now cur)
   \<and> perDiskStats (snd (foldl (perDiskStep clk now) ps al)) k =
       (case prevPerDiskStats (fst ps) k of
          None \<Rightarrow> perDiskStats (snd ps) k
        | Some p \<Rightarrow> (case perDiskSample now cur p of
                       None \<Rightarrow> perDiskStats (snd ps) k
                     | Some r \<Rightarrow> Some r))"
proof (induction al arbitrary: ps)
  case Nil
  then show ?case by simp
next
  case (Cons e al)
  show ?case
  proof (cases "e = (k, cur)")
    case True
    from Cons.prems(1) True have notin: "k \<notin> fst ` set al" by auto
    show ?thesis
      using foldl_perDiskStep_other [OF notin, of clk now "perDiskStep clk now ps (k, cur)"]
        perDiskStep_self [of clk now ps k cur]
      by (simp add: True)
  next
    case False
    from Cons.prems False have mem: "(k, cur) \<in> set al" by auto
    from mem have k_in: "k \<in> fst ` set al" by force
    from Cons.prems(1) have "fst e \<notin> fst ` set al" by simp
    with k_in have ne: "k \<noteq> fst e" by blast
    from Cons.prems(1) have d: "distinct (map fst al)" by simp
    show ?thesis
      using Cons.IH [OF d mem, of "perDiskStep clk now ps e"] perDiskStep_other [OF ne, of clk now ps]
      by (simp split: option.split)
  qed
qed

lemma foldl_perIfaceStep_plain_self:
  "distinct (map fst al) \<Longrightarrow> (k, cur) \<in> set al \<Longrightarrow>
   prevPerIfaceStats (fst (foldl (perIfaceStep_plain clk now) ps al)) k = Some (netBaseline now cur)
   \<and> perIfaceStats (snd (foldl (perIfaceStep_plain clk now) ps al)) k =
       (case prevPerIfaceStats (fst ps) k of
          None \<Rightarrow> perIfaceStats (snd ps) k
        | Some p \<Rightarrow> (case perIfaceSample now cur p of
                       None \<Rightarrow> perIfaceStats (snd ps) k
                     | Some r \<Rightarrow> Some r))"
proof (induction al arbitrary: ps)
  case Nil
  then show ?case by simp
next
  case (Cons e al)
  show ?case
  proof (cases "e = (k, cur)")
    case True
    from Cons.prems(1) True have notin: "k \<notin> fst ` set al" by auto
    show ?thesis
      using foldl_perIfaceStep_plain_other [OF notin, of clk now "perIfaceStep_plain clk now ps (k, cur)"]
        perIfaceStep_plain_self [of clk now ps k cur]
      by (simp add: True)
  next
    case False
    from Cons.prems False have mem: "(k, cur) \<in> set al" by auto
    from mem have k_in: "k \<in> fst ` set al" by force
    from Cons.prems(1) have "fst e \<notin> fst ` set al" by simp
    with k_in have ne: "k \<noteq> fst e" by blast
    from Cons.prems(1) have d: "distinct (map fst al)" by simp
    show ?thesis
      using Cons.IH [OF d mem, of "perIfaceStep_plain clk now ps e"] perIfaceStep_plain_other [OF ne, of clk now ps]
      by (simp split: option.split)
  qed
qed

lemma diskLine_distinct:
  "distinct (map fst (snd (snd acc))) \<Longrightarrow> distinct (map fst (snd (snd (diskLine acc l))))"
  by (cases acc) (simp add: diskLine_def Let_def distinct_update)

lemma netLine_distinct:
  "distinct (map fst (snd (snd acc))) \<Longrightarrow> distinct (map fst (snd (snd (netLine acc l))))"
  by (cases acc) (simp add: netLine_def Let_def distinct_update)

lemma foldl_diskLine_distinct:
  "distinct (map fst (snd (snd acc))) \<Longrightarrow> distinct (map fst (snd (snd (foldl diskLine acc ls))))"
  by (induction ls arbitrary: acc) (simp_all add: diskLine_distinct)

lemma foldl_netLine_distinct:
  "distinct (map fst (snd (snd acc))) \<Longrightarrow> distinct (map fst (snd (snd (foldl netLine acc ls))))"
  by (induction ls arbitrary: acc) (simp_all add: netLine_distinct)

lemma currentPerDisk_distinct: "distinct (map fst (currentPerDisk c))"
  unfolding currentPerDisk_def diskLines_def
  by (rule foldl_diskLine_distinct) simp

lemma set_objectEntries: "set (objectEntries al) = set al"
  by (auto simp: objectEntries_def)

lemma objectEntries_distinct:
  assumes "distinct (map fst al)"
  shows "distinct (map fst (objectEntries al))"
proof -
  from assms have d: "distinct al" and i: "inj_on fst (set al)"
    by (simp_all add: distinct_map)
  have "distinct (objectEntries al)"
    using d by (auto simp: objectEntries_def)
  moreover have "inj_on fst (set (objectEntries al))"
    using i by (simp add: set_objectEntries)
  ultimately show ?thesis
    by (simp add: distinct_map)
qed

lemma currentPerIface_distinct: "distinct (map fst (currentPerIface c))"
  unfolding currentPerIface_def netLines_def
  by (rule objectEntries_distinct, rule foldl_netLine_distinct) simp

lemma diskAggregate_frame:
  "netVars (fst (diskAggregate now tr tw ps)) = netVars (fst ps)
   \<and> prevPerDiskStats (fst (diskAggregate now tr tw ps)) = prevPerDiskStats (fst ps)
   \<and> perDiskHistories (fst (diskAggregate now tr tw ps)) = perDiskHistories (fst ps)
   \<and> history (fst (diskAggregate now tr tw ps)) = history (fst ps)
   \<and> clockReads (fst (diskAggregate now tr tw ps)) = clockReads (fst ps)
   \<and> netOut (snd (diskAggregate now tr tw ps)) = netOut (snd ps)
   \<and> perDiskStats (snd (diskAggregate now tr tw ps)) = perDiskStats (snd ps)"
  by (cases ps)
     (simp add: diskAggregate_def Let_def netVars_def netOut_def split: option.split)

lemma netAggregate_frame:
  "diskVars (fst (netAggregate now tr tw ps)) = diskVars (fst ps)
   \<and> prevPerIfaceStats (fst (netAggregate now tr tw ps)) = prevPerIfaceStats (fst ps)
   \<and> perIfaceHistories (fst (netAggregate now tr tw ps)) = perIfaceHistories (fst ps)
   \<and> history (fst (netAggregate now tr tw ps)) = history (fst ps)
   \<and> clockReads (fst (netAggregate now tr tw ps)) = clockReads (fst ps)
   \<and> diskOut (snd (netAggregate now tr tw ps)) = diskOut (snd ps)
   \<and> perIfaceStats (snd (netAggregate now tr tw ps)) = perIfaceStats (snd ps)"
  by (cases ps)
     (simp add: netAggregate_def Let_def diskVars_def diskOut_def split: option.split)

lemma diskSection_unfold:
  "diskSection clk c (st, stats) =
     foldl (perDiskStep clk (clk (clockReads st)))
       (diskAggregate (clk (clockReads st)) (fst (diskLines c)) (fst (snd (diskLines c)))
          (st\<lparr>clockReads := clockReads st + 1\<rparr>, stats))
       (currentPerDisk c)"
  by (simp add: diskSection_def dateNow_def currentPerDisk_def split_def Let_def)

lemma networkSection_plain_unfold:
  "networkSection_plain clk c (st, stats) =
     foldl (perIfaceStep_plain clk (clk (clockReads st)))
       (netAggregate (clk (clockReads st)) (fst (netLines c)) (fst (snd (netLines c)))
          (st\<lparr>clockReads := clockReads st + 1\<rparr>, stats))
       (currentPerIface c)"
  by (simp add: networkSection_plain_def dateNow_def currentPerIface_def split_def Let_def)

lemma diskSection_frame:
  "netVars (fst (diskSection clk c ps)) = netVars (fst ps)
   \<and> history (fst (diskSection clk c ps)) = history (fst ps)
   \<and> clockReads (fst ps) \<le> clockReads (fst (diskSection clk c ps))
   \<and> netOut (snd (diskSection clk c ps)) = netOut (snd ps)"
proof -
  obtain st stats where ps: "ps = (st, stats)" by (cases ps)
  let ?now = "clk (clockReads st)"
  let ?agg = "diskAggregate ?now (fst (diskLines c)) (fst (snd (diskLines c)))
          (st\<lparr>clockReads := clockReads st + 1\<rparr>, stats)"
  show ?thesis
    unfolding ps diskSection_unfold
    using foldl_perDiskStep_frame [of clk ?now ?agg "currentPerDisk c"]
      diskAggregate_frame [of ?now "fst (diskLines c)" "fst (snd (diskLines c))"
         "(st\<lparr>clockReads := clockReads st + 1\<rparr>, stats)"]
    by (simp add: netVars_def)
qed




lemma diskSection_self:
  assumes "(k, cur) \<in> set (currentPerDisk c)"
  shows "prevPerDiskStats (fst (diskSection clk c ps)) k
           = Some (diskBaseline (clk (clockReads (fst ps))) cur)
   \<and> perDiskStats (snd (diskSection clk c ps)) k =
       (case prevPerDiskStats (fst ps) k of
          None \<Rightarrow> perDiskStats (snd ps) k
        | Some p \<Rightarrow> (case perDiskSample (clk (clockReads (fst ps))) cur p of
                       None \<Rightarrow> perDiskStats (snd ps) k
                     | Some r \<Rightarrow> Some r))"
proof -
  obtain st stats where ps: "ps = (st, stats)" by (cases ps)
  let ?now = "clk (clockReads st)"
  let ?agg = "diskAggregate ?now (fst (diskLines c)) (fst (snd (diskLines c)))
          (st\<lparr>clockReads := clockReads st + 1\<rparr>, stats)"
  show ?thesis
    unfolding ps diskSection_unfold
    using foldl_perDiskStep_self [OF currentPerDisk_distinct assms, of clk ?now ?agg]
      diskAggregate_frame [of ?now "fst (diskLines c)" "fst (snd (diskLines c))"
         "(st\<lparr>clockReads := clockReads st + 1\<rparr>, stats)"]
    by (simp split: option.split)
qed

lemma networkSection_plain_self:
  assumes "(k, cur) \<in> set (currentPerIface c)"
  shows "prevPerIfaceStats (fst (networkSection_plain clk c ps)) k
           = Some (netBaseline (clk (clockReads (fst ps))) cur)
   \<and> perIfaceStats (snd (networkSection_plain clk c ps)) k =
       (case prevPerIfaceStats (fst ps) k of
          None \<Rightarrow> perIfaceStats (snd ps) k
        | Some p \<Rightarrow> (case perIfaceSample (clk (clockReads (fst ps))) cur p of
                       None \<Rightarrow> perIfaceStats (snd ps) k
                     | Some r \<Rightarrow> Some r))"
proof -
  obtain st stats where ps: "ps = (st, stats)" by (cases ps)
  let ?now = "clk (clockReads st)"
  let ?agg = "netAggregate ?now (fst (netLines c)) (fst (snd (netLines c)))
          (st\<lparr>clockReads := clockReads st + 1\<rparr>, stats)"
  show ?thesis
    unfolding ps networkSection_plain_unfold
    using foldl_perIfaceStep_plain_self [OF currentPerIface_distinct assms, of clk ?now ?agg]
      netAggregate_frame [of ?now "fst (netLines c)" "fst (snd (netLines c))"
         "(st\<lparr>clockReads := clockReads st + 1\<rparr>, stats)"]
    by (simp split: option.split)
qed

lemma perDiskStep_quiet:
  assumes "\<forall>p. prevPerDiskStats (fst ps) k = Some p \<longrightarrow> now \<le> timestamp p"
  shows "perDiskHistories (fst (perDiskStep clk now ps e)) k = perDiskHistories (fst ps) k
   \<and> perDiskStats (snd (perDiskStep clk now ps e)) k = perDiskStats (snd ps) k
   \<and> (\<forall>p. prevPerDiskStats (fst (perDiskStep clk now ps e)) k = Some p \<longrightarrow> now \<le> timestamp p)"
proof (cases "k = fst e")
  case False
  then show ?thesis
    using perDiskStep_other [of k e clk now ps] assms by simp
next
  case True
  obtain st stats where ps: "ps = (st, stats)" by (cases ps)
  obtain cur where e: "e = (k, cur)" using True by (cases e) simp
  have quiet: "perDiskRates clk now k cur (st, stats) = (st, stats)"
    using assms elapsed_nonpos [of now]
    by (simp add: ps perDiskRates_def Let_def split: option.split)
  show ?thesis
    by (simp add: ps e perDiskStep_def quiet Let_def)
qed

lemma foldl_perDiskStep_quiet:
  assumes "\<forall>p. prevPerDiskStats (fst ps) k = Some p \<longrightarrow> now \<le> timestamp p"
  shows "perDiskHistories (fst (foldl (perDiskStep clk now) ps al)) k = perDiskHistories (fst ps) k
   \<and> perDiskStats (snd (foldl (perDiskStep clk now) ps al)) k = perDiskStats (snd ps) k"
  using assms
proof (induction al arbitrary: ps)
  case Nil
  show ?case by simp
next
  case (Cons e al)
  have step: "perDiskHistories (fst (perDiskStep clk now ps e)) k = perDiskHistories (fst ps) k
   \<and> perDiskStats (snd (perDiskStep clk now ps e)) k = perDiskStats (snd ps) k
   \<and> (\<forall>p. prevPerDiskStats (fst (perDiskStep clk now ps e)) k = Some p \<longrightarrow> now \<le> timestamp p)"
    using Cons.prems by (rule perDiskStep_quiet)
  then have inv: "\<forall>p. prevPerDiskStats (fst (perDiskStep clk now ps e)) k = Some p \<longrightarrow> now \<le> timestamp p"
    by blast
  show ?case
    using Cons.IH [OF inv] step by simp
qed

lemma diskSection_quiet:
  assumes "\<forall>p. prevPerDiskStats (fst ps) k = Some p \<longrightarrow> clk (clockReads (fst ps)) \<le> timestamp p"
  shows "perDiskHistories (fst (diskSection clk c ps)) k = perDiskHistories (fst ps) k
   \<and> perDiskStats (snd (diskSection clk c ps)) k = perDiskStats (snd ps) k"
proof -
  obtain st stats where ps: "ps = (st, stats)" by (cases ps)
  let ?now = "clk (clockReads st)"
  let ?agg = "diskAggregate ?now (fst (diskLines c)) (fst (snd (diskLines c)))
          (st\<lparr>clockReads := clockReads st + 1\<rparr>, stats)"
  have fr: "prevPerDiskStats (fst ?agg) = prevPerDiskStats st
      \<and> perDiskHistories (fst ?agg) = perDiskHistories st
      \<and> perDiskStats (snd ?agg) = perDiskStats stats"
    using diskAggregate_frame [of ?now "fst (diskLines c)" "fst (snd (diskLines c))"
         "(st\<lparr>clockReads := clockReads st + 1\<rparr>, stats)"]
    by simp
  have inv: "\<forall>p. prevPerDiskStats (fst ?agg) k = Some p \<longrightarrow> ?now \<le> timestamp p"
    using assms fr by (simp add: ps)
  show ?thesis
    unfolding ps diskSection_unfold
    using foldl_perDiskStep_quiet [OF inv, of clk "currentPerDisk c"] fr
    by simp
qed

lemma diskSection_aggregate:
  "prevDiskStats (fst (diskSection clk c ps))
     = Some \<lparr>timestamp = clk (clockReads (fst ps)), readBytes = fst (diskLines c),
             writeBytes = fst (snd (diskLines c))\<rparr>
   \<and> diskReadRate (snd (diskSection clk c ps)) =
       (case prevDiskStats (fst ps) of
          None \<Rightarrow> diskReadRate (snd ps)
        | Some p \<Rightarrow>
            if js_gt (elapsedSec (clk (clockReads (fst ps))) (timestamp p)) (Num 0)
            then kbRate (fst (diskLines c)) (readBytes p)
                   (elapsedSec (clk (clockReads (fst ps))) (timestamp p))
            else diskReadRate (snd ps))
   \<and> diskWriteRate (snd (diskSection clk c ps)) =
       (case prevDiskStats (fst ps) of
          None \<Rightarrow> diskWriteRate (snd ps)
        | Some p \<Rightarrow>
            if js_gt (elapsedSec (clk (clockReads (fst ps))) (timestamp p)) (Num 0)
            then kbRate (fst (snd (diskLines c))) (writeBytes p)
                   (elapsedSec (clk (clockReads (fst ps))) (timestamp p))
            else diskWriteRate (snd ps))"
proof -
  obtain st stats where ps: "ps = (st, stats)" by (cases ps)
  let ?now = "clk (clockReads st)"
  let ?agg = "diskAggregate ?now (fst (diskLines c)) (fst (snd (diskLines c)))
          (st\<lparr>clockReads := clockReads st + 1\<rparr>, stats)"
  show ?thesis
    unfolding ps diskSection_unfold
    using foldl_perDiskStep_frame [of clk ?now ?agg "currentPerDisk c"]
    by (simp add: diskAggregate_def Let_def split: option.split)
qed

lemma diskSection_clock:
  "clockReads (fst ps) < clockReads (fst (diskSection clk c ps))"
proof -
  obtain st stats where ps: "ps = (st, stats)" by (cases ps)
  let ?now = "clk (clockReads st)"
  let ?agg = "diskAggregate ?now (fst (diskLines c)) (fst (snd (diskLines c)))
          (st\<lparr>clockReads := clockReads st + 1\<rparr>, stats)"
  show ?thesis
    unfolding ps diskSection_unfold
    using foldl_perDiskStep_frame [of clk ?now ?agg "currentPerDisk c"]
      diskAggregate_frame [of ?now "fst (diskLines c)" "fst (snd (diskLines c))"
         "(st\<lparr>clockReads := clockReads st + 1\<rparr>, stats)"]
    by simp
qed

section \<open>The network section, with the path on which it throws\<close>

lemma perIfaceStep_Thrown: "perIfaceStep clk now (Thrown ps) e = Thrown ps"
  by (simp add: perIfaceStep_def)

lemma foldl_perIfaceStep_Thrown: "foldl (perIfaceStep clk now) (Thrown ps) al = Thrown ps"
  by (induction al) (simp_all add: perIfaceStep_Thrown)

lemma perIfaceStep_plain_eq:
  "fst e \<notin> set inheritedNames \<Longrightarrow>
   perIfaceStep clk now (Normal ps) e = Normal (perIfaceStep_plain clk now ps e)"
  by (cases ps; cases e)
     (simp add: perIfaceStep_def perIfaceRates_def perIfaceStep_plain_def perIfaceRates_plain_def
        dateNow_def Let_def split_def split: option.split)

lemma foldl_perIfaceStep_plain_eq:
  "\<forall>e \<in> set al. fst e \<notin> set inheritedNames \<Longrightarrow>
   foldl (perIfaceStep clk now) (Normal ps) al = Normal (foldl (perIfaceStep_plain clk now) ps al)"
  by (induction al arbitrary: ps) (simp_all add: perIfaceStep_plain_eq)

lemma netLine_keys:
  "fst ` set (snd (snd (netLine acc l))) =
     fst ` set (snd (snd acc))
       \<union> (case ifaceOfLine l of None \<Rightarrow> {} | Some n \<Rightarrow> {n} - {''__proto__''})"
  by (cases acc) (simp add: netLine_def ifaceOfLine_def Let_def dom_update)

lemma foldl_netLine_keys:
  "fst ` set (snd (snd (foldl netLine acc ls))) =
     fst ` set (snd (snd acc)) \<union> (set (List.map_filter ifaceOfLine ls) - {''__proto__''})"
proof (induction ls arbitrary: acc)
  case Nil
  show ?case by (simp add: List.map_filter_simps)
next
  case (Cons l ls)
  show ?case
    unfolding foldl_Cons Cons.IH netLine_keys
    by (cases "ifaceOfLine l") (auto simp: List.map_filter_simps)
qed

lemma netKeys_reported: "netKeys c = reportedIfaces c - {''__proto__''}"
  by (simp add: netKeys_def currentPerIface_def set_objectEntries netLines_def
      reportedIfaces_def foldl_netLine_keys)

lemma plainNames_keys:
  assumes "plainNames c"
  shows "netKeys c = reportedIfaces c" and "\<forall>k \<in> netKeys c. k \<notin> set inheritedNames"
proof -
  have "''__proto__'' \<in> set inheritedNames"
    by (simp add: inheritedNames_def)
  then have "''__proto__'' \<notin> reportedIfaces c"
    using assms unfolding plainNames_def by blast
  then show "netKeys c = reportedIfaces c"
    unfolding netKeys_reported by simp
  then show "\<forall>k \<in> netKeys c. k \<notin> set inheritedNames"
    using assms unfolding plainNames_def by simp
qed

lemma networkSection_plain_eq:
  assumes "plainNames c"
  shows "networkSection clk c ps = Normal (networkSection_plain clk c ps)"
proof -
  have "\<forall>e \<in> set (objectEntries (snd (snd (netLines c)))). fst e \<notin> set inheritedNames"
    using plainNames_keys(2) [OF assms] by (simp add: netKeys_def currentPerIface_def)
  then show ?thesis
    by (cases ps)
       (simp add: networkSection_def networkSection_plain_def foldl_perIfaceStep_plain_eq
          split_def Let_def)
qed

lemma netRun_plain: "plainNames c \<Longrightarrow> netRun clk c ps = networkSection_plain clk c ps"
  by (simp add: netRun_def networkSection_plain_eq)

lemma perIfaceStep_frame:
  "diskVars (fst (stateOf (perIfaceStep clk now c e))) = diskVars (fst (stateOf c))
   \<and> prevNetStats (fst (stateOf (perIfaceStep clk now c e))) = prevNetStats (fst (stateOf c))
   \<and> history (fst (stateOf (perIfaceStep clk now c e))) = history (fst (stateOf c))
   \<and> clockReads (fst (stateOf c)) \<le> clockReads (fst (stateOf (perIfaceStep clk now c e)))
   \<and> diskOut (snd (stateOf (perIfaceStep clk now c e))) = diskOut (snd (stateOf c))
   \<and> networkSentRate (snd (stateOf (perIfaceStep clk now c e))) = networkSentRate (snd (stateOf c))
   \<and> networkRecvRate (snd (stateOf (perIfaceStep clk now c e))) = networkRecvRate (snd (stateOf c))
   \<and> cpuUsage (snd (stateOf (perIfaceStep clk now c e))) = cpuUsage (snd (stateOf c))"
  by (cases c; cases "stateOf c"; cases e)
     (simp_all add: perIfaceStep_def perIfaceRates_def dateNow_def Let_def split_def diskVars_def
        diskOut_def split: option.split)

lemma perIfaceStep_other:
  "k \<noteq> fst e \<Longrightarrow>
   prevPerIfaceStats (fst (stateOf (perIfaceStep clk now c e))) k = prevPerIfaceStats (fst (stateOf c)) k
   \<and> perIfaceHistories (fst (stateOf (perIfaceStep clk now c e))) k = perIfaceHistories (fst (stateOf c)) k
   \<and> perIfaceStats (snd (stateOf (perIfaceStep clk now c e))) k = perIfaceStats (snd (stateOf c)) k"
  by (cases c; cases "stateOf c"; cases e)
     (simp_all add: perIfaceStep_def perIfaceRates_def dateNow_def Let_def split_def
        split: option.split)


lemma perIfaceStep_quiet:
  assumes "\<forall>p. prevPerIfaceStats (fst (stateOf c)) k = Some p \<longrightarrow> now \<le> timestamp p"
  shows "perIfaceHistories (fst (stateOf (perIfaceStep clk now c e))) k
           = perIfaceHistories (fst (stateOf c)) k
   \<and> perIfaceStats (snd (stateOf (perIfaceStep clk now c e))) k = perIfaceStats (snd (stateOf c)) k
   \<and> (\<forall>p. prevPerIfaceStats (fst (stateOf (perIfaceStep clk now c e))) k = Some p
          \<longrightarrow> now \<le> timestamp p)"
proof (cases "k = fst e")
  case False
  then show ?thesis
    using perIfaceStep_other [of k e clk now c] assms by simp
next
  case True
  obtain cur where e: "e = (k, cur)" using True by (cases e) simp
  show ?thesis
  proof (cases c)
    case (Thrown ps)
    then show ?thesis using assms by (simp add: perIfaceStep_Thrown)
  next
    case (Normal ps)
    obtain st stats where ps: "ps = (st, stats)" by (cases ps)
    have quiet: "perIfaceRates clk now k cur (st, stats) = Normal (st, stats)"
      using assms elapsed_nonpos [of now]
      by (simp add: Normal ps perIfaceRates_def Let_def split: option.split)
    show ?thesis
      by (simp add: Normal ps e perIfaceStep_def quiet Let_def)
  qed
qed

lemma foldl_perIfaceStep_frame:
  "diskVars (fst (stateOf (foldl (perIfaceStep clk now) c al))) = diskVars (fst (stateOf c))
   \<and> prevNetStats (fst (stateOf (foldl (perIfaceStep clk now) c al))) = prevNetStats (fst (stateOf c))
   \<and> history (fst (stateOf (foldl (perIfaceStep clk now) c al))) = history (fst (stateOf c))
   \<and> clockReads (fst (stateOf c)) \<le> clockReads (fst (stateOf (foldl (perIfaceStep clk now) c al)))
   \<and> diskOut (snd (stateOf (foldl (perIfaceStep clk now) c al))) = diskOut (snd (stateOf c))
   \<and> networkSentRate (snd (stateOf (foldl (perIfaceStep clk now) c al)))
       = networkSentRate (snd (stateOf c))
   \<and> networkRecvRate (snd (stateOf (foldl (perIfaceStep clk now) c al)))
       = networkRecvRate (snd (stateOf c))
   \<and> cpuUsage (snd (stateOf (foldl (perIfaceStep clk now) c al))) = cpuUsage (snd (stateOf c))"
proof (induction al arbitrary: c)
  case Nil
  show ?case by simp
next
  case (Cons e al)
  show ?case
    using Cons.IH [of "perIfaceStep clk now c e"] perIfaceStep_frame [of clk now c e]
    by simp
qed



lemma foldl_perIfaceStep_quiet:
  assumes "\<forall>p. prevPerIfaceStats (fst (stateOf c)) k = Some p \<longrightarrow> now \<le> timestamp p"
  shows "perIfaceHistories (fst (stateOf (foldl (perIfaceStep clk now) c al))) k
           = perIfaceHistories (fst (stateOf c)) k
   \<and> perIfaceStats (snd (stateOf (foldl (perIfaceStep clk now) c al))) k
           = perIfaceStats (snd (stateOf c)) k"
  using assms
proof (induction al arbitrary: c)
  case Nil
  show ?case by simp
next
  case (Cons e al)
  have step: "perIfaceHistories (fst (stateOf (perIfaceStep clk now c e))) k
           = perIfaceHistories (fst (stateOf c)) k
   \<and> perIfaceStats (snd (stateOf (perIfaceStep clk now c e))) k = perIfaceStats (snd (stateOf c)) k
   \<and> (\<forall>p. prevPerIfaceStats (fst (stateOf (perIfaceStep clk now c e))) k = Some p
          \<longrightarrow> now \<le> timestamp p)"
    using Cons.prems by (rule perIfaceStep_quiet)
  then have inv: "\<forall>p. prevPerIfaceStats (fst (stateOf (perIfaceStep clk now c e))) k = Some p
          \<longrightarrow> now \<le> timestamp p"
    by blast
  show ?case
    using Cons.IH [OF inv] step by simp
qed

lemma netRun_unfold:
  "netRun clk c (st, stats) =
     stateOf (foldl (perIfaceStep clk (clk (clockReads st)))
       (Normal (netAggregate (clk (clockReads st)) (fst (netLines c)) (fst (snd (netLines c)))
          (st\<lparr>clockReads := clockReads st + 1\<rparr>, stats)))
       (currentPerIface c))"
  by (simp add: netRun_def networkSection_def dateNow_def currentPerIface_def split_def Let_def)

lemma netRun_frame:
  "diskVars (fst (netRun clk c ps)) = diskVars (fst ps)
   \<and> history (fst (netRun clk c ps)) = history (fst ps)
   \<and> clockReads (fst ps) < clockReads (fst (netRun clk c ps))
   \<and> diskOut (snd (netRun clk c ps)) = diskOut (snd ps)
   \<and> cpuUsage (snd (netRun clk c ps)) = cpuUsage (snd ps)"
proof -
  obtain st stats where ps: "ps = (st, stats)" by (cases ps)
  let ?now = "clk (clockReads st)"
  let ?agg = "netAggregate ?now (fst (netLines c)) (fst (snd (netLines c)))
          (st\<lparr>clockReads := clockReads st + 1\<rparr>, stats)"
  have cpu: "cpuUsage (snd ?agg) = cpuUsage stats"
    by (simp add: netAggregate_def Let_def split: option.split)
  show ?thesis
    unfolding ps netRun_unfold
    using foldl_perIfaceStep_frame [of clk ?now "Normal ?agg" "currentPerIface c"]
      netAggregate_frame [of ?now "fst (netLines c)" "fst (snd (netLines c))"
         "(st\<lparr>clockReads := clockReads st + 1\<rparr>, stats)"] cpu
    by (simp add: diskVars_def)
qed



lemma netRun_quiet:
  assumes "\<forall>p. prevPerIfaceStats (fst ps) k = Some p \<longrightarrow> clk (clockReads (fst ps)) \<le> timestamp p"
  shows "perIfaceHistories (fst (netRun clk c ps)) k = perIfaceHistories (fst ps) k
   \<and> perIfaceStats (snd (netRun clk c ps)) k = perIfaceStats (snd ps) k"
proof -
  obtain st stats where ps: "ps = (st, stats)" by (cases ps)
  let ?now = "clk (clockReads st)"
  let ?agg = "netAggregate ?now (fst (netLines c)) (fst (snd (netLines c)))
          (st\<lparr>clockReads := clockReads st + 1\<rparr>, stats)"
  have fr: "prevPerIfaceStats (fst ?agg) = prevPerIfaceStats st
      \<and> perIfaceHistories (fst ?agg) = perIfaceHistories st
      \<and> perIfaceStats (snd ?agg) = perIfaceStats stats"
    using netAggregate_frame [of ?now "fst (netLines c)" "fst (snd (netLines c))"
         "(st\<lparr>clockReads := clockReads st + 1\<rparr>, stats)"]
    by simp
  have inv: "\<forall>p. prevPerIfaceStats (fst (stateOf (Normal ?agg))) k = Some p \<longrightarrow> ?now \<le> timestamp p"
    using assms fr by (simp add: ps)
  show ?thesis
    unfolding ps netRun_unfold
    using foldl_perIfaceStep_quiet [OF inv, of clk "currentPerIface c"] fr
    by simp
qed

lemma netRun_aggregate:
  "prevNetStats (fst (netRun clk c ps))
     = Some \<lparr>timestamp = clk (clockReads (fst ps)), sent = fst (netLines c),
             recv = fst (snd (netLines c))\<rparr>
   \<and> networkSentRate (snd (netRun clk c ps)) =
       (case prevNetStats (fst ps) of
          None \<Rightarrow> networkSentRate (snd ps)
        | Some p \<Rightarrow>
            if js_gt (elapsedSec (clk (clockReads (fst ps))) (timestamp p)) (Num 0)
            then kbRate (fst (netLines c)) (sent p)
                   (elapsedSec (clk (clockReads (fst ps))) (timestamp p))
            else networkSentRate (snd ps))
   \<and> networkRecvRate (snd (netRun clk c ps)) =
       (case prevNetStats (fst ps) of
          None \<Rightarrow> networkRecvRate (snd ps)
        | Some p \<Rightarrow>
            if js_gt (elapsedSec (clk (clockReads (fst ps))) (timestamp p)) (Num 0)
            then kbRate (fst (snd (netLines c))) (recv p)
                   (elapsedSec (clk (clockReads (fst ps))) (timestamp p))
            else networkRecvRate (snd ps))"
proof -
  obtain st stats where ps: "ps = (st, stats)" by (cases ps)
  let ?now = "clk (clockReads st)"
  let ?agg = "netAggregate ?now (fst (netLines c)) (fst (snd (netLines c)))
          (st\<lparr>clockReads := clockReads st + 1\<rparr>, stats)"
  show ?thesis
    unfolding ps netRun_unfold
    using foldl_perIfaceStep_frame [of clk ?now "Normal ?agg" "currentPerIface c"]
    by (simp add: netAggregate_def Let_def split: option.split)
qed

section \<open>The pass as a whole\<close>

lemma ifContent_cases:
  "ifContent c f x = x \<or> (\<exists>s. c = Some s \<and> s \<noteq> [] \<and> ifContent c f x = f s x)"
  by (simp add: ifContent_def split: option.split)

lemma ifContent_Some: "s \<noteq> [] \<Longrightarrow> ifContent (Some s) f x = f s x"
  by (simp add: ifContent_def)

lemma stats_sections_frame:
  "diskOut (memorySection s x) = diskOut x \<and> netOut (memorySection s x) = netOut x
   \<and> diskOut (uptimeSection s x) = diskOut x \<and> netOut (uptimeSection s x) = netOut x
   \<and> diskOut (loadSection s x) = diskOut x \<and> netOut (loadSection s x) = netOut x"
  by (simp add: memorySection_def uptimeSection_def loadSection_def diskOut_def netOut_def Let_def)

lemma sameBut_trans: "sameBut ps qs \<Longrightarrow> sameBut qs rs \<Longrightarrow> sameBut ps rs"
  by (simp add: sameBut_def)

lemma sameBut_cpu: "sameBut (ifContent a (cpuSection clk) ps) ps"
  using ifContent_cases [of a "cpuSection clk" ps] cpuSection_frame [of clk _ ps]
  by (auto simp: sameBut_def)

lemma sameBut_stats:
  "g = memorySection \<or> g = uptimeSection \<or> g = loadSection \<Longrightarrow>
   sameBut (ifContent a (\<lambda>s. apsnd (g s)) ps) ps"
  using ifContent_cases [of a "\<lambda>s. apsnd (g s)" ps] stats_sections_frame
  by (cases ps) (auto simp: sameBut_def)

lemma beforeDisk_frame: "sameBut (beforeDisk clk a b c d st) (st, initialStats)"
  unfolding beforeDisk_def
  by (blast intro: sameBut_trans sameBut_stats sameBut_cpu)

lemma updateHistory_frame:
  "snd (updateHistory clk ps) = snd ps
   \<and> diskVars (fst (updateHistory clk ps)) = diskVars (fst ps)
   \<and> netVars (fst (updateHistory clk ps)) = netVars (fst ps)"
  by (cases ps) (simp add: updateHistory_def Let_def diskVars_def netVars_def)

lemma fetch_resolved:
  "fetchSystemStats clk (resolvedReads a b c d e f) st =
     (snd (updateHistory clk (ifContent f (netRun clk)
             (ifContent e (diskSection clk) (beforeDisk clk a b c d st)))),
      fst (updateHistory clk (ifContent f (netRun clk)
             (ifContent e (diskSection clk) (beforeDisk clk a b c d st)))))"
  by (simp add: fetchSystemStats_def resolvedReads_def processFamilies_def beforeDisk_def
      ifContent_def netRun_def Let_def split_def split: option.split)

lemma pass_disk:
  "diskVars (snd (fetchSystemStats clk (resolvedReads a b c d e f) st))
     = diskVars (fst (ifContent e (diskSection clk) (beforeDisk clk a b c d st)))
   \<and> diskOut (fst (fetchSystemStats clk (resolvedReads a b c d e f) st))
     = diskOut (snd (ifContent e (diskSection clk) (beforeDisk clk a b c d st)))"
  unfolding fetch_resolved fst_conv snd_conv
  using ifContent_cases [of f "netRun clk" "ifContent e (diskSection clk) (beforeDisk clk a b c d st)"]
    netRun_frame [of clk _ "ifContent e (diskSection clk) (beforeDisk clk a b c d st)"]
    updateHistory_frame [of clk]
  by auto

lemma pass_net:
  "netVars (snd (fetchSystemStats clk (resolvedReads a b c d e f) st))
     = netVars (fst (ifContent f (netRun clk)
             (ifContent e (diskSection clk) (beforeDisk clk a b c d st))))
   \<and> netOut (fst (fetchSystemStats clk (resolvedReads a b c d e f) st))
     = netOut (snd (ifContent f (netRun clk)
             (ifContent e (diskSection clk) (beforeDisk clk a b c d st))))"
  unfolding fetch_resolved fst_conv snd_conv
  using updateHistory_frame [of clk]
  by simp

lemma afterDisk_frame:
  "netVars (fst (ifContent e (diskSection clk) (beforeDisk clk a b c d st))) = netVars st
   \<and> netOut (snd (ifContent e (diskSection clk) (beforeDisk clk a b c d st))) = netOut initialStats
   \<and> clockReads st \<le> clockReads (fst (ifContent e (diskSection clk) (beforeDisk clk a b c d st)))"
proof -
  let ?bd = "beforeDisk clk a b c d st"
  have bd: "netVars (fst ?bd) = netVars st \<and> netOut (snd ?bd) = netOut initialStats
            \<and> clockReads st \<le> clockReads (fst ?bd)"
    using beforeDisk_frame [of clk a b c d st] by (simp add: sameBut_def)
  consider "ifContent e (diskSection clk) ?bd = ?bd"
    | s where "ifContent e (diskSection clk) ?bd = diskSection clk s ?bd"
    using ifContent_cases [of e "diskSection clk" ?bd] by blast
  then show ?thesis
  proof cases
    case 1
    then show ?thesis using bd by simp
  next
    case (2 s)
    show ?thesis
      unfolding 2 using bd diskSection_frame [of clk s ?bd] by simp
  qed
qed

lemma beforeDisk_vars:
  "prevDiskStats (fst (beforeDisk clk a b c d st)) = prevDiskStats st
   \<and> prevPerDiskStats (fst (beforeDisk clk a b c d st)) = prevPerDiskStats st
   \<and> perDiskHistories (fst (beforeDisk clk a b c d st)) = perDiskHistories st
   \<and> diskReadRate (snd (beforeDisk clk a b c d st)) = Num 0
   \<and> diskWriteRate (snd (beforeDisk clk a b c d st)) = Num 0
   \<and> perDiskStats (snd (beforeDisk clk a b c d st)) = Map.empty
   \<and> clockReads st \<le> clockReads (fst (beforeDisk clk a b c d st))"
  using beforeDisk_frame [of clk a b c d st]
  by (simp add: sameBut_def diskVars_def diskOut_def initialStats_def)

lemma afterDisk_vars:
  "prevNetStats (fst (ifContent e (diskSection clk) (beforeDisk clk a b c d st))) = prevNetStats st
   \<and> prevPerIfaceStats (fst (ifContent e (diskSection clk) (beforeDisk clk a b c d st)))
       = prevPerIfaceStats st
   \<and> perIfaceHistories (fst (ifContent e (diskSection clk) (beforeDisk clk a b c d st)))
       = perIfaceHistories st
   \<and> networkSentRate (snd (ifContent e (diskSection clk) (beforeDisk clk a b c d st))) = Num 0
   \<and> networkRecvRate (snd (ifContent e (diskSection clk) (beforeDisk clk a b c d st))) = Num 0
   \<and> perIfaceStats (snd (ifContent e (diskSection clk) (beforeDisk clk a b c d st))) = Map.empty"
  using afterDisk_frame [of e clk a b c d st]
  by (simp add: netVars_def netOut_def initialStats_def)

lemma pass_disk_fields:
  "prevDiskStats (snd (fetchSystemStats clk (resolvedReads a b c d e f) st))
     = prevDiskStats (fst (ifContent e (diskSection clk) (beforeDisk clk a b c d st)))
   \<and> prevPerDiskStats (snd (fetchSystemStats clk (resolvedReads a b c d e f) st))
     = prevPerDiskStats (fst (ifContent e (diskSection clk) (beforeDisk clk a b c d st)))
   \<and> perDiskHistories (snd (fetchSystemStats clk (resolvedReads a b c d e f) st))
     = perDiskHistories (fst (ifContent e (diskSection clk) (beforeDisk clk a b c d st)))
   \<and> diskReadRate (fst (fetchSystemStats clk (resolvedReads a b c d e f) st))
     = diskReadRate (snd (ifContent e (diskSection clk) (beforeDisk clk a b c d st)))
   \<and> diskWriteRate (fst (fetchSystemStats clk (resolvedReads a b c d e f) st))
     = diskWriteRate (snd (ifContent e (diskSection clk) (beforeDisk clk a b c d st)))
   \<and> perDiskStats (fst (fetchSystemStats clk (resolvedReads a b c d e f) st))
     = perDiskStats (snd (ifContent e (diskSection clk) (beforeDisk clk a b c d st)))"
  using pass_disk [of clk a b c d e f st]
  by (simp add: diskVars_def diskOut_def)

lemma pass_net_fields:
  "prevNetStats (snd (fetchSystemStats clk (resolvedReads a b c d e f) st))
     = prevNetStats (fst (ifContent f (netRun clk)
             (ifContent e (diskSection clk) (beforeDisk clk a b c d st))))
   \<and> prevPerIfaceStats (snd (fetchSystemStats clk (resolvedReads a b c d e f) st))
     = prevPerIfaceStats (fst (ifContent f (netRun clk)
             (ifContent e (diskSection clk) (beforeDisk clk a b c d st))))
   \<and> perIfaceHistories (snd (fetchSystemStats clk (resolvedReads a b c d e f) st))
     = perIfaceHistories (fst (ifContent f (netRun clk)
             (ifContent e (diskSection clk) (beforeDisk clk a b c d st))))
   \<and> networkSentRate (fst (fetchSystemStats clk (resolvedReads a b c d e f) st))
     = networkSentRate (snd (ifContent f (netRun clk)
             (ifContent e (diskSection clk) (beforeDisk clk a b c d st))))
   \<and> networkRecvRate (fst (fetchSystemStats clk (resolvedReads a b c d e f) st))
     = networkRecvRate (snd (ifContent f (netRun clk)
             (ifContent e (diskSection clk) (beforeDisk clk a b c d st))))
   \<and> perIfaceStats (fst (fetchSystemStats clk (resolvedReads a b c d e f) st))
     = perIfaceStats (snd (ifContent f (netRun clk)
             (ifContent e (diskSection clk) (beforeDisk clk a b c d st))))"
  using pass_net [of clk a b c d e f st]
  by (simp add: netVars_def netOut_def)




lemma pass_clock:
  "clockReads (fst (ifContent e (diskSection clk) (beforeDisk clk a b c d st)))
     \<le> clockReads (snd (fetchSystemStats clk (resolvedReads a b c d e f) st))"
proof -
  let ?ad = "ifContent e (diskSection clk) (beforeDisk clk a b c d st)"
  let ?an = "ifContent f (netRun clk) ?ad"
  have up: "clockReads (fst ?an) \<le> clockReads (fst (updateHistory clk ?an))"
    by (cases ?an) (simp add: updateHistory_def Let_def)
  consider "?an = ?ad" | s where "?an = netRun clk s ?ad"
    using ifContent_cases [of f "netRun clk" ?ad] by blast
  then have "clockReads (fst ?ad) \<le> clockReads (fst ?an)"
  proof cases
    case 1
    then show ?thesis by simp
  next
    case (2 s)
    show ?thesis unfolding 2 using netRun_frame [of clk s ?ad] by simp
  qed
  with up show ?thesis
    unfolding fetch_resolved snd_conv by simp
qed

lemma first_sight_disk:
  assumes "e \<noteq> []" and "(k, cur) \<in> set (currentPerDisk e)" and "prevPerDiskStats st k = None"
  shows "perDiskStats (fst (fetchSystemStats clk (resolvedReads a b c d (Some e) f) st)) k = None
   \<and> perDiskHistories (snd (fetchSystemStats clk (resolvedReads a b c d (Some e) f) st)) k
       = perDiskHistories st k
   \<and> (\<exists>n. clockReads st \<le> n
          \<and> n < clockReads (snd (fetchSystemStats clk (resolvedReads a b c d (Some e) f) st))
          \<and> prevPerDiskStats (snd (fetchSystemStats clk (resolvedReads a b c d (Some e) f) st)) k
              = Some (diskBaseline (clk n) cur))"
proof -
  let ?bd = "beforeDisk clk a b c d st"
  let ?P = "fetchSystemStats clk (resolvedReads a b c d (Some e) f) st"
  have run: "ifContent (Some e) (diskSection clk) ?bd = diskSection clk e ?bd"
    using assms(1) by (rule ifContent_Some)
  have bd: "prevPerDiskStats (fst ?bd) = prevPerDiskStats st"
      "perDiskHistories (fst ?bd) = perDiskHistories st"
      "perDiskStats (snd ?bd) = Map.empty" "clockReads st \<le> clockReads (fst ?bd)"
    using beforeDisk_vars [of clk a b c d st] by simp_all
  have pf: "prevPerDiskStats (snd ?P) = prevPerDiskStats (fst (diskSection clk e ?bd))"
      "perDiskHistories (snd ?P) = perDiskHistories (fst (diskSection clk e ?bd))"
      "perDiskStats (fst ?P) = perDiskStats (snd (diskSection clk e ?bd))"
    using pass_disk_fields [of clk a b c d "Some e" f st] by (simp_all add: run)
  have inv: "\<forall>p. prevPerDiskStats (fst ?bd) k = Some p \<longrightarrow> clk (clockReads (fst ?bd)) \<le> timestamp p"
    by (simp add: bd assms(3))
  have quiet: "perDiskHistories (fst (diskSection clk e ?bd)) k = perDiskHistories st k"
      "perDiskStats (snd (diskSection clk e ?bd)) k = None"
    using diskSection_quiet [of ?bd k clk e, OF inv] by (simp_all add: bd)
  have base: "prevPerDiskStats (fst (diskSection clk e ?bd)) k
                = Some (diskBaseline (clk (clockReads (fst ?bd))) cur)"
    using diskSection_self [OF assms(2), of clk ?bd] by simp
  have "clockReads (fst ?bd) < clockReads (fst (diskSection clk e ?bd))"
    by (rule diskSection_clock)
  also have "\<dots> \<le> clockReads (snd ?P)"
    using pass_clock [of "Some e" clk a b c d st f] by (simp add: run)
  finally have later: "clockReads (fst ?bd) < clockReads (snd ?P)" .
  show ?thesis
    unfolding pf using quiet base bd(4) later by blast
qed

lemma tracked_disk:
  assumes "e \<noteq> []" and "(k, cur) \<in> set (currentPerDisk e)" and "prevPerDiskStats st k = Some p"
  shows "\<exists>n. clockReads st \<le> n
          \<and> perDiskStats (fst (fetchSystemStats clk (resolvedReads a b c d (Some e) f) st)) k
              = perDiskSample (clk n) cur p"
proof -
  let ?bd = "beforeDisk clk a b c d st"
  let ?P = "fetchSystemStats clk (resolvedReads a b c d (Some e) f) st"
  have run: "ifContent (Some e) (diskSection clk) ?bd = diskSection clk e ?bd"
    using assms(1) by (rule ifContent_Some)
  have bd: "prevPerDiskStats (fst ?bd) = prevPerDiskStats st"
      "perDiskStats (snd ?bd) = Map.empty" "clockReads st \<le> clockReads (fst ?bd)"
    using beforeDisk_vars [of clk a b c d st] by simp_all
  have pf: "perDiskStats (fst ?P) = perDiskStats (snd (diskSection clk e ?bd))"
    using pass_disk_fields [of clk a b c d "Some e" f st] by (simp add: run)
  have "perDiskStats (snd (diskSection clk e ?bd)) k
          = perDiskSample (clk (clockReads (fst ?bd))) cur p"
    using diskSection_self [OF assms(2), of clk ?bd]
    by (simp add: bd assms(3) split: option.split)
  then show ?thesis
    unfolding pf using bd(3) by blast
qed


lemma pass_clock_net:
  "clockReads (fst (ifContent f (netRun clk)
       (ifContent e (diskSection clk) (beforeDisk clk a b c d st))))
     \<le> clockReads (snd (fetchSystemStats clk (resolvedReads a b c d e f) st))"
proof -
  let ?an = "ifContent f (netRun clk)
       (ifContent e (diskSection clk) (beforeDisk clk a b c d st))"
  have "clockReads (fst ?an) \<le> clockReads (fst (updateHistory clk ?an))"
    by (cases ?an) (simp add: updateHistory_def Let_def)
  then show ?thesis
    unfolding fetch_resolved snd_conv by simp
qed

lemma first_sight_net:
  assumes "f \<noteq> []" and "(k, cur) \<in> set (currentPerIface f)" and "prevPerIfaceStats st k = None"
    and "plainNames f"
  shows "perIfaceStats (fst (fetchSystemStats clk (resolvedReads a b c d e (Some f)) st)) k = None
   \<and> perIfaceHistories (snd (fetchSystemStats clk (resolvedReads a b c d e (Some f)) st)) k
       = perIfaceHistories st k
   \<and> (\<exists>n. clockReads st \<le> n
          \<and> n < clockReads (snd (fetchSystemStats clk (resolvedReads a b c d e (Some f)) st))
          \<and> prevPerIfaceStats (snd (fetchSystemStats clk (resolvedReads a b c d e (Some f)) st)) k
              = Some (netBaseline (clk n) cur))"
proof -
  let ?ad = "ifContent e (diskSection clk) (beforeDisk clk a b c d st)"
  let ?P = "fetchSystemStats clk (resolvedReads a b c d e (Some f)) st"
  have run: "ifContent (Some f) (netRun clk) ?ad = netRun clk f ?ad"
    using assms(1) by (rule ifContent_Some)
  have ad: "prevPerIfaceStats (fst ?ad) = prevPerIfaceStats st"
      "perIfaceHistories (fst ?ad) = perIfaceHistories st"
      "perIfaceStats (snd ?ad) = Map.empty" "clockReads st \<le> clockReads (fst ?ad)"
    using afterDisk_vars [of e clk a b c d st] afterDisk_frame [of e clk a b c d st] by simp_all
  have pf: "prevPerIfaceStats (snd ?P) = prevPerIfaceStats (fst (netRun clk f ?ad))"
      "perIfaceHistories (snd ?P) = perIfaceHistories (fst (netRun clk f ?ad))"
      "perIfaceStats (fst ?P) = perIfaceStats (snd (netRun clk f ?ad))"
    using pass_net_fields [of clk a b c d e "Some f" st] by (simp_all add: run)
  have inv: "\<forall>p. prevPerIfaceStats (fst ?ad) k = Some p \<longrightarrow> clk (clockReads (fst ?ad)) \<le> timestamp p"
    by (simp add: ad assms(3))
  have quiet: "perIfaceHistories (fst (netRun clk f ?ad)) k = perIfaceHistories st k"
      "perIfaceStats (snd (netRun clk f ?ad)) k = None"
    using netRun_quiet [of ?ad k clk f, OF inv] by (simp_all add: ad)
  have base: "prevPerIfaceStats (fst (netRun clk f ?ad)) k
                = Some (netBaseline (clk (clockReads (fst ?ad))) cur)"
    using networkSection_plain_self [OF assms(2), of clk ?ad] by (simp add: netRun_plain [OF assms(4)])
  have "clockReads (fst ?ad) < clockReads (fst (netRun clk f ?ad))"
    using netRun_frame [of clk f ?ad] by simp
  also have "\<dots> \<le> clockReads (snd ?P)"
    using pass_clock_net [of "Some f" clk e a b c d st] by (simp add: run)
  finally have later: "clockReads (fst ?ad) < clockReads (snd ?P)" .
  show ?thesis
    unfolding pf using quiet base ad(4) later by blast
qed

lemma tracked_net:
  assumes "f \<noteq> []" and "(k, cur) \<in> set (currentPerIface f)" and "prevPerIfaceStats st k = Some p"
    and "plainNames f"
  shows "\<exists>n. clockReads st \<le> n
          \<and> perIfaceStats (fst (fetchSystemStats clk (resolvedReads a b c d e (Some f)) st)) k
              = perIfaceSample (clk n) cur p"
proof -
  let ?ad = "ifContent e (diskSection clk) (beforeDisk clk a b c d st)"
  let ?P = "fetchSystemStats clk (resolvedReads a b c d e (Some f)) st"
  have run: "ifContent (Some f) (netRun clk) ?ad = netRun clk f ?ad"
    using assms(1) by (rule ifContent_Some)
  have ad: "prevPerIfaceStats (fst ?ad) = prevPerIfaceStats st"
      "perIfaceStats (snd ?ad) = Map.empty" "clockReads st \<le> clockReads (fst ?ad)"
    using afterDisk_vars [of e clk a b c d st] afterDisk_frame [of e clk a b c d st] by simp_all
  have pf: "perIfaceStats (fst ?P) = perIfaceStats (snd (netRun clk f ?ad))"
    using pass_net_fields [of clk a b c d e "Some f" st] by (simp add: run)
  have "perIfaceStats (snd (netRun clk f ?ad)) k
          = perIfaceSample (clk (clockReads (fst ?ad))) cur p"
    using networkSection_plain_self [OF assms(2), of clk ?ad]
    by (simp add: ad assms(3) netRun_plain [OF assms(4)] split: option.split)
  then show ?thesis
    unfolding pf using ad(3) by blast
qed

lemma zero_elapsed_disk_aggregate:
  assumes "prevDiskStats st = Some p" and "\<forall>n. clk n \<le> timestamp p"
  shows "diskReadRate (fst (fetchSystemStats clk (resolvedReads a b c d e f) st)) = Num 0
   \<and> diskWriteRate (fst (fetchSystemStats clk (resolvedReads a b c d e f) st)) = Num 0"
proof -
  let ?bd = "beforeDisk clk a b c d st"
  have bd: "prevDiskStats (fst ?bd) = Some p" "diskReadRate (snd ?bd) = Num 0"
      "diskWriteRate (snd ?bd) = Num 0"
    using beforeDisk_vars [of clk a b c d st] assms(1) by simp_all
  have no: "\<not> js_gt (elapsedSec (clk n) (timestamp p)) (Num 0)" for n
    using assms(2) by (simp add: elapsed_nonpos)
  consider "ifContent e (diskSection clk) ?bd = ?bd"
    | s where "ifContent e (diskSection clk) ?bd = diskSection clk s ?bd"
    using ifContent_cases [of e "diskSection clk" ?bd] by blast
  then have "diskReadRate (snd (ifContent e (diskSection clk) ?bd)) = Num 0
      \<and> diskWriteRate (snd (ifContent e (diskSection clk) ?bd)) = Num 0"
  proof cases
    case 1
    then show ?thesis using bd by simp
  next
    case (2 s)
    show ?thesis
      unfolding 2 using diskSection_aggregate [of clk s ?bd] bd no by simp
  qed
  then show ?thesis
    using pass_disk_fields [of clk a b c d e f st] by simp
qed

lemma zero_elapsed_disk_entity:
  assumes "prevPerDiskStats st k = Some q" and "\<forall>n. clk n \<le> timestamp q"
  shows "perDiskStats (fst (fetchSystemStats clk (resolvedReads a b c d e f) st)) k = None
   \<and> perDiskHistories (snd (fetchSystemStats clk (resolvedReads a b c d e f) st)) k
       = perDiskHistories st k"
proof -
  let ?bd = "beforeDisk clk a b c d st"
  have bd: "prevPerDiskStats (fst ?bd) = prevPerDiskStats st"
      "perDiskHistories (fst ?bd) = perDiskHistories st" "perDiskStats (snd ?bd) = Map.empty"
    using beforeDisk_vars [of clk a b c d st] by simp_all
  have inv: "\<forall>p. prevPerDiskStats (fst ?bd) k = Some p \<longrightarrow> clk (clockReads (fst ?bd)) \<le> timestamp p"
    using assms by (simp add: bd)
  consider "ifContent e (diskSection clk) ?bd = ?bd"
    | s where "ifContent e (diskSection clk) ?bd = diskSection clk s ?bd"
    using ifContent_cases [of e "diskSection clk" ?bd] by blast
  then have "perDiskStats (snd (ifContent e (diskSection clk) ?bd)) k = None
      \<and> perDiskHistories (fst (ifContent e (diskSection clk) ?bd)) k = perDiskHistories st k"
  proof cases
    case 1
    then show ?thesis using bd by simp
  next
    case (2 s)
    show ?thesis
      unfolding 2 using diskSection_quiet [of ?bd k clk s, OF inv] bd by simp
  qed
  then show ?thesis
    using pass_disk_fields [of clk a b c d e f st] by simp
qed

lemma zero_elapsed_net_aggregate:
  assumes "prevNetStats st = Some p" and "\<forall>n. clk n \<le> timestamp p"
  shows "networkSentRate (fst (fetchSystemStats clk (resolvedReads a b c d e f) st)) = Num 0
   \<and> networkRecvRate (fst (fetchSystemStats clk (resolvedReads a b c d e f) st)) = Num 0"
proof -
  let ?ad = "ifContent e (diskSection clk) (beforeDisk clk a b c d st)"
  have ad: "prevNetStats (fst ?ad) = Some p" "networkSentRate (snd ?ad) = Num 0"
      "networkRecvRate (snd ?ad) = Num 0"
    using afterDisk_vars [of e clk a b c d st] assms(1) by simp_all
  have no: "\<not> js_gt (elapsedSec (clk n) (timestamp p)) (Num 0)" for n
    using assms(2) by (simp add: elapsed_nonpos)
  consider "ifContent f (netRun clk) ?ad = ?ad"
    | s where "ifContent f (netRun clk) ?ad = netRun clk s ?ad"
    using ifContent_cases [of f "netRun clk" ?ad] by blast
  then have "networkSentRate (snd (ifContent f (netRun clk) ?ad)) = Num 0
      \<and> networkRecvRate (snd (ifContent f (netRun clk) ?ad)) = Num 0"
  proof cases
    case 1
    then show ?thesis using ad by simp
  next
    case (2 s)
    show ?thesis
      unfolding 2 using netRun_aggregate [of clk s ?ad] ad no by simp
  qed
  then show ?thesis
    using pass_net_fields [of clk a b c d e f st] by simp
qed

lemma zero_elapsed_net_entity:
  assumes "prevPerIfaceStats st k = Some q" and "\<forall>n. clk n \<le> timestamp q"
  shows "perIfaceStats (fst (fetchSystemStats clk (resolvedReads a b c d e f) st)) k = None
   \<and> perIfaceHistories (snd (fetchSystemStats clk (resolvedReads a b c d e f) st)) k
       = perIfaceHistories st k"
proof -
  let ?ad = "ifContent e (diskSection clk) (beforeDisk clk a b c d st)"
  have ad: "prevPerIfaceStats (fst ?ad) = prevPerIfaceStats st"
      "perIfaceHistories (fst ?ad) = perIfaceHistories st" "perIfaceStats (snd ?ad) = Map.empty"
    using afterDisk_vars [of e clk a b c d st] by simp_all
  have inv: "\<forall>p. prevPerIfaceStats (fst ?ad) k = Some p \<longrightarrow> clk (clockReads (fst ?ad)) \<le> timestamp p"
    using assms by (simp add: ad)
  consider "ifContent f (netRun clk) ?ad = ?ad"
    | s where "ifContent f (netRun clk) ?ad = netRun clk s ?ad"
    using ifContent_cases [of f "netRun clk" ?ad] by blast
  then have "perIfaceStats (snd (ifContent f (netRun clk) ?ad)) k = None
      \<and> perIfaceHistories (fst (ifContent f (netRun clk) ?ad)) k = perIfaceHistories st k"
  proof cases
    case 1
    then show ?thesis using ad by simp
  next
    case (2 s)
    show ?thesis
      unfolding 2 using netRun_quiet [of ?ad k clk s, OF inv] ad by simp
  qed
  then show ?thesis
    using pass_net_fields [of clk a b c d e f st] by simp
qed

lemma perDiskStep_cpu:
  "cpuUsage (snd (perDiskStep clk now ps e)) = cpuUsage (snd ps)"
  by (cases ps; cases e)
     (simp add: perDiskStep_def perDiskRates_def dateNow_def Let_def split_def
        split: option.split)

lemma foldl_perDiskStep_cpu:
  "cpuUsage (snd (foldl (perDiskStep clk now) ps al)) = cpuUsage (snd ps)"
  by (induction al arbitrary: ps) (simp_all add: perDiskStep_cpu)

lemma diskSection_cpu:
  "cpuUsage (snd (diskSection clk c ps)) = cpuUsage (snd ps)"
  by (cases ps)
     (simp add: diskSection_unfold foldl_perDiskStep_cpu diskAggregate_def Let_def
        split: option.split)

section \<open>Evaluation on concrete inputs\<close>

lemmas eval_defs = fetchSystemStats_def resolvedReads_def processFamilies_def ifContent_def
  diskSection_def diskLines_def diskLine_def diskAggregate_def perDiskStep_def perDiskRates_def
  networkSection_def netLines_def netLine_def netAggregate_def perIfaceStep_def perIfaceRates_def
  inheritedNames_def
  dateNow_def updateHistory_def memoryPercent_def initialEngine_def initialStats_def
  elapsedSec_def kbRate_def splitWs.simps trim_def isSpace_def isDiskDevice_def
  startsWithThenLower_def diskPrefixes_def endsInDigit_def isLower_def isDigit_def parseInt_def
  decimal_def digitVal_def addHistoryPoint_def MAX_HISTORY_POINTS_def currentPerDisk_def
  currentPerIface_def objectEntries_def isArrayIndex_def diskBaseline_def netBaseline_def
  perDiskSample_def perIfaceSample_def Let_def split_def

section \<open>The snapshot stores after a pass\<close>




section \<open>No time elapsed\<close>

text \<open>
  C6, as the claim states it, fails for the samples of an entity: with an elapsed time of
  zero the pass emits no sample for the device at all, not a sample of rate 0. Two passes
  read the clock at 5000; the first stores the snapshot of \<open>sda\<close>, the second finds it
  with the time of the pass itself and leaves \<open>perDiskStats\<close> without an entry for \<open>sda\<close>.
\<close>

theorem zero_elapsed_counterexample:
  "prevPerDiskStats (snd (fetchSystemStats (\<lambda>n. 5000)
        (resolvedReads None None None None (Some ''8 0 sda 0 0 1000 0 0 0 0 0 0 0 0'') None)
        initialEngine)) ''sda''
     = Some \<lparr>timestamp = 5000, readBytes = Num 512000, writeBytes = Num 0\<rparr>
   \<and> perDiskStats (fst (fetchSystemStats (\<lambda>n. 5000)
        (resolvedReads None None None None (Some ''8 0 sda 0 0 1512 0 0 0 0 0 0 0 0'') None)
        (snd (fetchSystemStats (\<lambda>n. 5000)
           (resolvedReads None None None None (Some ''8 0 sda 0 0 1000 0 0 0 0 0 0 0 0'') None)
           initialEngine)))) ''sda''
     = None"
  by (simp add: eval_defs)

text \<open>
  C6, amended. Let no reading of the clock in the pass be later than the time of the
  previous snapshot (the elapsed time is zero or negative). Then, whatever the counters:
  the aggregate disk and network rates the pass returns are 0; for a disk device and for
  an interface the pass emits no rate sample (the key has no entry in \<open>perDiskStats\<close>,
  \<open>perIfaceStats\<close>) and appends no history point; and the two rates of a process are 0.
\<close>

theorem zero_elapsed:
  assumes "prevDiskStats st = Some p" and "\<forall>n. clk n \<le> timestamp p"
    and "prevPerDiskStats st k = Some q" and "\<forall>n. clk n \<le> timestamp q"
    and "prevNetStats st = Some p'" and "\<forall>n. clk n \<le> timestamp p'"
    and "prevPerIfaceStats st i = Some q'" and "\<forall>n. clk n \<le> timestamp q'"
    and "now \<le> timestamp pp"
  shows "diskReadRate (fst (fetchSystemStats clk (resolvedReads a b c d e f) st)) = Num 0
   \<and> diskWriteRate (fst (fetchSystemStats clk (resolvedReads a b c d e f) st)) = Num 0
   \<and> networkSentRate (fst (fetchSystemStats clk (resolvedReads a b c d e f) st)) = Num 0
   \<and> networkRecvRate (fst (fetchSystemStats clk (resolvedReads a b c d e f) st)) = Num 0
   \<and> perDiskStats (fst (fetchSystemStats clk (resolvedReads a b c d e f) st)) k = None
   \<and> perDiskHistories (snd (fetchSystemStats clk (resolvedReads a b c d e f) st)) k
       = perDiskHistories st k
   \<and> perIfaceStats (fst (fetchSystemStats clk (resolvedReads a b c d e f) st)) i = None
   \<and> perIfaceHistories (snd (fetchSystemStats clk (resolvedReads a b c d e f) st)) i
       = perIfaceHistories st i
   \<and> fst (processIoRates now io (Some pp)) = Num 0
   \<and> fst (snd (processIoRates now io (Some pp))) = Num 0"
proof -
  have proc: "fst (processIoRates now io (Some pp)) = Num 0
      \<and> fst (snd (processIoRates now io (Some pp))) = Num 0"
    using elapsed_nonpos [OF assms(9)]
    by (simp add: processIoRates_def Let_def split: option.split)
  show ?thesis
    using zero_elapsed_disk_aggregate [OF assms(1,2), of a b c d e f]
      zero_elapsed_disk_entity [OF assms(3,4), of a b c d e f]
      zero_elapsed_net_aggregate [OF assms(5,6), of a b c d e f]
      zero_elapsed_net_entity [OF assms(7,8), of a b c d e f] proc
    by blast
qed

text \<open>
  The theorem at snapshots taken at the time 5000 and a pass whose clock reads 5000.
\<close>

theorem zero_elapsed_witness:
  "(5000::int) \<le> 5000
   \<and> diskReadRate (fst (fetchSystemStats (\<lambda>n. 5000)
        (resolvedReads None None None None (Some ''8 0 sda 0 0 1512 0 0 0 0 0 0 0 0'') None)
        (initialEngine\<lparr>
           prevNetStats := Some \<lparr>timestamp = 5000, sent = Num 0, recv = Num 0\<rparr>,
           prevPerIfaceStats := [''eth0'' \<mapsto> \<lparr>timestamp = 5000, sent = Num 0, recv = Num 0\<rparr>],
           prevDiskStats := Some \<lparr>timestamp = 5000, readBytes = Num 0, writeBytes = Num 0\<rparr>,
           prevPerDiskStats := [''sda'' \<mapsto>
              \<lparr>timestamp = 5000, readBytes = Num 0, writeBytes = Num 0\<rparr>]\<rparr>))) = Num 0
   \<and> perDiskStats (fst (fetchSystemStats (\<lambda>n. 5000)
        (resolvedReads None None None None (Some ''8 0 sda 0 0 1512 0 0 0 0 0 0 0 0'') None)
        (initialEngine\<lparr>
           prevNetStats := Some \<lparr>timestamp = 5000, sent = Num 0, recv = Num 0\<rparr>,
           prevPerIfaceStats := [''eth0'' \<mapsto> \<lparr>timestamp = 5000, sent = Num 0, recv = Num 0\<rparr>],
           prevDiskStats := Some \<lparr>timestamp = 5000, readBytes = Num 0, writeBytes = Num 0\<rparr>,
           prevPerDiskStats := [''sda'' \<mapsto>
              \<lparr>timestamp = 5000, readBytes = Num 0, writeBytes = Num 0\<rparr>]\<rparr>))) ''sda'' = None"
proof -
  define st where "st = initialEngine\<lparr>
           prevNetStats := Some \<lparr>timestamp = 5000, sent = Num 0, recv = Num 0\<rparr>,
           prevPerIfaceStats := [''eth0'' \<mapsto> \<lparr>timestamp = 5000, sent = Num 0, recv = Num 0\<rparr>],
           prevDiskStats := Some \<lparr>timestamp = 5000, readBytes = Num 0, writeBytes = Num 0\<rparr>,
           prevPerDiskStats := [''sda'' \<mapsto>
              \<lparr>timestamp = 5000, readBytes = Num 0, writeBytes = Num 0\<rparr>]\<rparr>"
  have h1: "prevDiskStats st = Some \<lparr>timestamp = 5000, readBytes = Num 0, writeBytes = Num 0\<rparr>"
    and h3: "prevPerDiskStats st ''sda''
               = Some \<lparr>timestamp = 5000, readBytes = Num 0, writeBytes = Num 0\<rparr>"
    and h5: "prevNetStats st = Some \<lparr>timestamp = 5000, sent = Num 0, recv = Num 0\<rparr>"
    and h7: "prevPerIfaceStats st ''eth0'' = Some \<lparr>timestamp = 5000, sent = Num 0, recv = Num 0\<rparr>"
    by (simp_all add: st_def)
  have h2: "\<forall>n::nat. (\<lambda>n. 5000) n
              \<le> timestamp \<lparr>timestamp = 5000, readBytes = Num 0, writeBytes = Num 0\<rparr>"
    and h6: "\<forall>n::nat. (\<lambda>n. 5000) n \<le> timestamp \<lparr>timestamp = 5000, sent = Num 0, recv = Num 0\<rparr>"
    and h9: "(5000::int) \<le> timestamp \<lparr>timestamp = 5000, readBytes = Num 0, writeBytes = Num 0\<rparr>"
    by simp_all
  note main = zero_elapsed [OF h1 h2 h3 h2 h5 h6 h7 h6 h9,
      of None None None None "Some ''8 0 sda 0 0 1512 0 0 0 0 0 0 0 0''" None None]
  from main have r: "diskReadRate (fst (fetchSystemStats (\<lambda>n. 5000)
        (resolvedReads None None None None (Some ''8 0 sda 0 0 1512 0 0 0 0 0 0 0 0'') None) st))
        = Num 0"
    by (rule conjunct1)
  from main have s: "perDiskStats (fst (fetchSystemStats (\<lambda>n. 5000)
        (resolvedReads None None None None (Some ''8 0 sda 0 0 1512 0 0 0 0 0 0 0 0'') None) st))
        ''sda'' = None"
    by blast
  show ?thesis
    using r s unfolding st_def by (intro conjI) simp_all
qed

section \<open>The first sight of an entity\<close>

text \<open>
  Where nothing is thrown the first sight of an entity goes as follows. A pass reports
  the disk device \<open>k\<close> (the interface \<open>i\<close>, in a content with plain names) for which no
  previous snapshot is stored. Then the output of that pass has no rate sample for it,
  and the pass stores its current counters with the time \<open>clk n1\<close> the pass read. When
  a later pass reports the entity again (for an interface: again in a content with plain
  names), its sample is the one derived from exactly this snapshot and from a later
  reading \<open>clk n2\<close> of the clock (\<open>n1 < n2\<close>): the rates over the time between the two
  readings when that time is positive. For a process seen for the first time the two
  rates are the initial 0 and its byte counters are stored.
\<close>

lemma first_sight_plain:
  assumes "e \<noteq> []" and "(k, cur) \<in> set (currentPerDisk e)" and "prevPerDiskStats st k = None"
    and "f \<noteq> []" and "(i, ncur) \<in> set (currentPerIface f)" and "prevPerIfaceStats st' i = None"
    and "e2 \<noteq> []" and "(k, cur2) \<in> set (currentPerDisk e2)"
    and "f2 \<noteq> []" and "(i, ncur2) \<in> set (currentPerIface f2)"
    and "plainNames f" and "plainNames f2"
  shows "perDiskStats (fst (fetchSystemStats clk (resolvedReads a b c d (Some e) fo) st)) k = None
   \<and> perIfaceStats (fst (fetchSystemStats clk (resolvedReads a b c d eo (Some f)) st')) i = None
   \<and> (\<exists>n1 n2. n1 < n2
        \<and> prevPerDiskStats (snd (fetchSystemStats clk (resolvedReads a b c d (Some e) fo) st)) k
             = Some (diskBaseline (clk n1) cur)
        \<and> perDiskStats (fst (fetchSystemStats clk (resolvedReads a2 b2 c2 d2 (Some e2) fo2)
               (snd (fetchSystemStats clk (resolvedReads a b c d (Some e) fo) st)))) k
             = perDiskSample (clk n2) cur2 (diskBaseline (clk n1) cur))
   \<and> (\<exists>m1 m2. m1 < m2
        \<and> prevPerIfaceStats (snd (fetchSystemStats clk (resolvedReads a b c d eo (Some f)) st')) i
             = Some (netBaseline (clk m1) ncur)
        \<and> perIfaceStats (fst (fetchSystemStats clk (resolvedReads a2 b2 c2 d2 eo2 (Some f2))
               (snd (fetchSystemStats clk (resolvedReads a b c d eo (Some f)) st')))) i
             = perIfaceSample (clk m2) ncur2 (netBaseline (clk m1) ncur))
   \<and> processIoRates now (Some io) None
       = (Num 0, Num 0,
          Some \<lparr>timestamp = now, readBytes = ioReadBytes io, writeBytes = ioWriteBytes io\<rparr>)"
proof -
  define st1 where "st1 = snd (fetchSystemStats clk (resolvedReads a b c d (Some e) fo) st)"
  define st2 where "st2 = snd (fetchSystemStats clk (resolvedReads a b c d eo (Some f)) st')"
  note fd = first_sight_disk [OF assms(1,2,3), of clk a b c d fo, folded st1_def]
  note fn = first_sight_net [OF assms(4,5,6,11), of clk a b c d eo, folded st2_def]
  from fd obtain n1 where n1: "n1 < clockReads st1"
      "prevPerDiskStats st1 k = Some (diskBaseline (clk n1) cur)"
    by blast
  from tracked_disk [OF assms(7,8) n1(2), of clk a2 b2 c2 d2 fo2]
  obtain n2 where n2: "clockReads st1 \<le> n2"
      "perDiskStats (fst (fetchSystemStats clk (resolvedReads a2 b2 c2 d2 (Some e2) fo2) st1)) k
         = perDiskSample (clk n2) cur2 (diskBaseline (clk n1) cur)"
    by blast
  from n1(1) n2(1) have lt: "n1 < n2" by simp
  from fn obtain m1 where m1: "m1 < clockReads st2"
      "prevPerIfaceStats st2 i = Some (netBaseline (clk m1) ncur)"
    by blast
  from tracked_net [OF assms(9,10) m1(2) assms(12), of clk a2 b2 c2 d2 eo2]
  obtain m2 where m2: "clockReads st2 \<le> m2"
      "perIfaceStats (fst (fetchSystemStats clk (resolvedReads a2 b2 c2 d2 eo2 (Some f2)) st2)) i
         = perIfaceSample (clk m2) ncur2 (netBaseline (clk m1) ncur)"
    by blast
  from m1(1) m2(1) have lt': "m1 < m2" by simp
  have proc: "processIoRates now (Some io) None
       = (Num 0, Num 0,
          Some \<lparr>timestamp = now, readBytes = ioReadBytes io, writeBytes = ioWriteBytes io\<rparr>)"
    by (simp add: processIoRates_def)
  have d1: "perDiskStats (fst (fetchSystemStats clk (resolvedReads a b c d (Some e) fo) st)) k
           = None"
    using fd by blast
  have i1: "perIfaceStats (fst (fetchSystemStats clk (resolvedReads a b c d eo (Some f)) st')) i
           = None"
    using fn by blast
  have d2: "\<exists>n1 n2. n1 < n2
        \<and> prevPerDiskStats st1 k = Some (diskBaseline (clk n1) cur)
        \<and> perDiskStats (fst (fetchSystemStats clk (resolvedReads a2 b2 c2 d2 (Some e2) fo2) st1)) k
             = perDiskSample (clk n2) cur2 (diskBaseline (clk n1) cur)"
    using lt n1(2) n2(2) by blast
  have i2: "\<exists>m1 m2. m1 < m2
        \<and> prevPerIfaceStats st2 i = Some (netBaseline (clk m1) ncur)
        \<and> perIfaceStats (fst (fetchSystemStats clk (resolvedReads a2 b2 c2 d2 eo2 (Some f2)) st2)) i
             = perIfaceSample (clk m2) ncur2 (netBaseline (clk m1) ncur)"
    using lt' m1(2) m2(2) by blast
  show ?thesis
    using d1 i1 d2 i2 proc unfolding st1_def st2_def by (intro conjI)
qed

text \<open>
  The lemma at the device \<open>sda\<close>, first seen with 1000 sectors read, then with 1512
  one second later: no sample in the first pass, 256 KB/s in the second.
\<close>

lemma first_sight_plain_example:
  "(''sda'', \<lparr>read_cur = Num 512000, write_cur = Num 0\<rparr>)
       \<in> set (currentPerDisk ''8 0 sda 0 0 1000 0 0 0 0 0 0 0 0'')
   \<and> prevPerDiskStats initialEngine ''sda'' = None
   \<and> perDiskStats (fst (fetchSystemStats (\<lambda>n. 1000 * int (n div 7))
         (resolvedReads None None None None (Some ''8 0 sda 0 0 1000 0 0 0 0 0 0 0 0'') None)
         initialEngine)) ''sda'' = None
   \<and> prevPerDiskStats (snd (fetchSystemStats (\<lambda>n. 1000 * int (n div 7))
         (resolvedReads None None None None (Some ''8 0 sda 0 0 1000 0 0 0 0 0 0 0 0'') None)
         initialEngine)) ''sda''
       = Some \<lparr>timestamp = 0, readBytes = Num 512000, writeBytes = Num 0\<rparr>
   \<and> perDiskStats (fst (fetchSystemStats (\<lambda>n. 1000 * int (n div 7))
         (resolvedReads None None None None (Some ''8 0 sda 0 0 1512 0 0 0 0 0 0 0 0'') None)
         (snd (fetchSystemStats (\<lambda>n. 1000 * int (n div 7))
           (resolvedReads None None None None (Some ''8 0 sda 0 0 1000 0 0 0 0 0 0 0 0'') None)
           initialEngine)))) ''sda''
       = Some \<lparr>readRate = Num 256, writeRate = Num 0\<rparr>"
proof -
  define e where "e = ''8 0 sda 0 0 1000 0 0 0 0 0 0 0 0''"
  define e2 where "e2 = ''8 0 sda 0 0 1512 0 0 0 0 0 0 0 0''"
  define f where "f = ''h'' @ [CHR 0x0A] @ ''h'' @ [CHR 0x0A] @ ''eth0: 1024 0 0 0 0 0 0 0 2048 0''"
  define clk where "clk = (\<lambda>n::nat. 1000 * int (n div 7))"
  have ne: "e \<noteq> []" "f \<noteq> []" "e2 \<noteq> []"
    by (simp_all add: e_def f_def e2_def)
  have md: "(''sda'', \<lparr>read_cur = Num 512000, write_cur = Num 0\<rparr>) \<in> set (currentPerDisk e)"
    unfolding e_def by (simp add: eval_defs)
  have md2: "(''sda'', \<lparr>read_cur = Num 774144, write_cur = Num 0\<rparr>) \<in> set (currentPerDisk e2)"
    unfolding e2_def by (simp add: eval_defs)
  have mn: "(''eth0'', \<lparr>sent_cur = Num 2048, recv_cur = Num 1024\<rparr>) \<in> set (currentPerIface f)"
    unfolding f_def by (simp add: eval_defs)
  have pd: "prevPerDiskStats initialEngine ''sda'' = None"
    and pn: "prevPerIfaceStats initialEngine ''eth0'' = None"
    by (simp_all add: initialEngine_def)
  have pl: "plainNames f"
    unfolding f_def
    by (simp add: plainNames_def reportedIfaces_def ifaceOfLine_def List.map_filter_simps
        eval_defs)
  note main = first_sight_plain [OF ne(1) md pd ne(2) mn pn ne(3) md2 ne(2) mn pl pl,
      of clk None None None None None None None None None None None None]
  from main have d1: "perDiskStats (fst (fetchSystemStats clk
       (resolvedReads None None None None (Some e) None) initialEngine)) ''sda'' = None"
    by (rule conjunct1)
  have b1: "prevPerDiskStats (snd (fetchSystemStats clk
       (resolvedReads None None None None (Some e) None) initialEngine)) ''sda''
       = Some \<lparr>timestamp = 0, readBytes = Num 512000, writeBytes = Num 0\<rparr>"
    unfolding e_def clk_def by (simp add: eval_defs)
  have r2: "perDiskStats (fst (fetchSystemStats clk
       (resolvedReads None None None None (Some e2) None)
       (snd (fetchSystemStats clk
          (resolvedReads None None None None (Some e) None) initialEngine)))) ''sda''
       = Some \<lparr>readRate = Num 256, writeRate = Num 0\<rparr>"
    unfolding e_def e2_def clk_def by (simp add: eval_defs)
  show ?thesis
    using md pd d1 b1 r2 unfolding e_def e2_def clk_def
    by (intro conjI)
qed

text \<open>
  C7 does not hold for the interfaces: the per-interface maps are plain objects, and an
  interface whose name is an inherited name breaks the loop. Two passes, one second
  apart, report the interfaces \<open>constructor\<close> and \<open>eth0\<close>. The first pass sees both for
  the first time and stores their counters with the time 0. In the second pass
  \<open>constructor\<close> comes first: its sample is computed, \<open>perIfaceHistories['constructor']\<close>
  reads the inherited function, \<open>addHistoryPoint(undefined, sentRate)\<close> throws, and the
  loop never reaches \<open>eth0\<close>. The claim promises for \<open>eth0\<close> the sample derived from its
  baseline, 2 KB/s sent and 1 KB/s received; the pass returns no sample for it and leaves
  its snapshot at the time 0, so the same happens in every later pass. And an interface
  named \<open>__proto__\<close> is reported by a pass, yet its counters are never stored.
\<close>

theorem first_sight_lost:
  "reportedIfaces (''Inter-|'' @ [CHR 0x0A] @ '' face |'' @ [CHR 0x0A]
       @ ''constructor: 100 0 0 0 0 0 0 0 200 0 0 0 0 0 0 0'' @ [CHR 0x0A]
       @ ''  eth0: 1024 0 0 0 0 0 0 0 2048 0 0 0 0 0 0 0'') = {''constructor'', ''eth0''}
   \<and> prevPerIfaceStats initialEngine ''eth0'' = None
   \<and> prevPerIfaceStats (snd (fetchSystemStats (\<lambda>n. 1000 * int (n div 7))
        (resolvedReads None None None None None
           (Some (''Inter-|'' @ [CHR 0x0A] @ '' face |'' @ [CHR 0x0A]
              @ ''constructor: 100 0 0 0 0 0 0 0 200 0 0 0 0 0 0 0'' @ [CHR 0x0A]
              @ ''  eth0: 1024 0 0 0 0 0 0 0 2048 0 0 0 0 0 0 0'')))
        initialEngine)) ''eth0''
       = Some \<lparr>timestamp = 0, sent = Num 2048, recv = Num 1024\<rparr>
   \<and> (''eth0'', \<lparr>sent_cur = Num 4096, recv_cur = Num 2048\<rparr>)
       \<in> set (currentPerIface (''Inter-|'' @ [CHR 0x0A] @ '' face |'' @ [CHR 0x0A]
              @ ''constructor: 100 0 0 0 0 0 0 0 200 0 0 0 0 0 0 0'' @ [CHR 0x0A]
              @ ''  eth0: 2048 0 0 0 0 0 0 0 4096 0 0 0 0 0 0 0''))
   \<and> perIfaceSample 1000 \<lparr>sent_cur = Num 4096, recv_cur = Num 2048\<rparr>
        \<lparr>timestamp = 0, sent = Num 2048, recv = Num 1024\<rparr>
       = Some \<lparr>sentRate = Num 2, recvRate = Num 1\<rparr>
   \<and> perIfaceStats (fst (fetchSystemStats (\<lambda>n. 1000 * int (n div 7))
        (resolvedReads None None None None None
           (Some (''Inter-|'' @ [CHR 0x0A] @ '' face |'' @ [CHR 0x0A]
              @ ''constructor: 100 0 0 0 0 0 0 0 200 0 0 0 0 0 0 0'' @ [CHR 0x0A]
              @ ''  eth0: 2048 0 0 0 0 0 0 0 4096 0 0 0 0 0 0 0'')))
        (snd (fetchSystemStats (\<lambda>n. 1000 * int (n div 7))
           (resolvedReads None None None None None
              (Some (''Inter-|'' @ [CHR 0x0A] @ '' face |'' @ [CHR 0x0A]
                 @ ''constructor: 100 0 0 0 0 0 0 0 200 0 0 0 0 0 0 0'' @ [CHR 0x0A]
                 @ ''  eth0: 1024 0 0 0 0 0 0 0 2048 0 0 0 0 0 0 0'')))
           initialEngine)))) ''eth0''
       = None
   \<and> prevPerIfaceStats (snd (fetchSystemStats (\<lambda>n. 1000 * int (n div 7))
        (resolvedReads None None None None None
           (Some (''Inter-|'' @ [CHR 0x0A] @ '' face |'' @ [CHR 0x0A]
              @ ''constructor: 100 0 0 0 0 0 0 0 200 0 0 0 0 0 0 0'' @ [CHR 0x0A]
              @ ''  eth0: 2048 0 0 0 0 0 0 0 4096 0 0 0 0 0 0 0'')))
        (snd (fetchSystemStats (\<lambda>n. 1000 * int (n div 7))
           (resolvedReads None None None None None
              (Some (''Inter-|'' @ [CHR 0x0A] @ '' face |'' @ [CHR 0x0A]
                 @ ''constructor: 100 0 0 0 0 0 0 0 200 0 0 0 0 0 0 0'' @ [CHR 0x0A]
                 @ ''  eth0: 1024 0 0 0 0 0 0 0 2048 0 0 0 0 0 0 0'')))
           initialEngine)))) ''eth0''
       = Some \<lparr>timestamp = 0, sent = Num 2048, recv = Num 1024\<rparr>
   \<and> reportedIfaces (''Inter-|'' @ [CHR 0x0A] @ '' face |'' @ [CHR 0x0A]
       @ ''__proto__: 100 0 0 0 0 0 0 0 200 0 0 0 0 0 0 0'') = {''__proto__''}
   \<and> prevPerIfaceStats (snd (fetchSystemStats (\<lambda>n. 1000 * int (n div 7))
        (resolvedReads None None None None None
           (Some (''Inter-|'' @ [CHR 0x0A] @ '' face |'' @ [CHR 0x0A]
              @ ''__proto__: 100 0 0 0 0 0 0 0 200 0 0 0 0 0 0 0'')))
        initialEngine)) ''__proto__''
       = None"
proof -
  define f1 where "f1 = ''Inter-|'' @ [CHR 0x0A] @ '' face |'' @ [CHR 0x0A]
       @ ''constructor: 100 0 0 0 0 0 0 0 200 0 0 0 0 0 0 0'' @ [CHR 0x0A]
       @ ''  eth0: 1024 0 0 0 0 0 0 0 2048 0 0 0 0 0 0 0''"
  define f2 where "f2 = ''Inter-|'' @ [CHR 0x0A] @ '' face |'' @ [CHR 0x0A]
       @ ''constructor: 100 0 0 0 0 0 0 0 200 0 0 0 0 0 0 0'' @ [CHR 0x0A]
       @ ''  eth0: 2048 0 0 0 0 0 0 0 4096 0 0 0 0 0 0 0''"
  define f3 where "f3 = ''Inter-|'' @ [CHR 0x0A] @ '' face |'' @ [CHR 0x0A]
       @ ''__proto__: 100 0 0 0 0 0 0 0 200 0 0 0 0 0 0 0''"
  define clk where "clk = (\<lambda>n::nat. 1000 * int (n div 7))"
  have r1: "reportedIfaces f1 = {''constructor'', ''eth0''}"
    unfolding f1_def
    by (simp add: reportedIfaces_def ifaceOfLine_def List.map_filter_simps eval_defs)
  have r3: "reportedIfaces f3 = {''__proto__''}"
    unfolding f3_def
    by (simp add: reportedIfaces_def ifaceOfLine_def List.map_filter_simps eval_defs)
  have p0: "prevPerIfaceStats initialEngine ''eth0'' = None"
    by (simp add: initialEngine_def)
  have b1: "prevPerIfaceStats (snd (fetchSystemStats clk
        (resolvedReads None None None None None (Some f1)) initialEngine)) ''eth0''
       = Some \<lparr>timestamp = 0, sent = Num 2048, recv = Num 1024\<rparr>"
    unfolding f1_def clk_def by (simp add: eval_defs)
  have c2: "(''eth0'', \<lparr>sent_cur = Num 4096, recv_cur = Num 2048\<rparr>) \<in> set (currentPerIface f2)"
    unfolding f2_def by (simp add: eval_defs)
  have ex: "perIfaceSample 1000 \<lparr>sent_cur = Num 4096, recv_cur = Num 2048\<rparr>
        \<lparr>timestamp = 0, sent = Num 2048, recv = Num 1024\<rparr>
       = Some \<lparr>sentRate = Num 2, recvRate = Num 1\<rparr>"
    by (simp add: perIfaceSample_def elapsedSec_def kbRate_def)
  have s2: "perIfaceStats (fst (fetchSystemStats clk
        (resolvedReads None None None None None (Some f2))
        (snd (fetchSystemStats clk
           (resolvedReads None None None None None (Some f1)) initialEngine)))) ''eth0''
       = None"
    unfolding f1_def f2_def clk_def by (simp add: eval_defs)
  have b2: "prevPerIfaceStats (snd (fetchSystemStats clk
        (resolvedReads None None None None None (Some f2))
        (snd (fetchSystemStats clk
           (resolvedReads None None None None None (Some f1)) initialEngine)))) ''eth0''
       = Some \<lparr>timestamp = 0, sent = Num 2048, recv = Num 1024\<rparr>"
    unfolding f1_def f2_def clk_def by (simp add: eval_defs)
  have b3: "prevPerIfaceStats (snd (fetchSystemStats clk
        (resolvedReads None None None None None (Some f3)) initialEngine)) ''__proto__''
       = None"
    unfolding f3_def clk_def by (simp add: eval_defs)
  show ?thesis
    using r1 p0 b1 c2 ex s2 b2 r3 b3 unfolding f1_def f2_def f3_def clk_def
    by (intro conjI)
qed

section \<open>CPU usage\<close>

lemma foldl_dbl_add_ticks:
  "a + sum_list ns < 2 ^ 53 \<Longrightarrow>
   foldl dbl_add (Num (of_nat a)) (tickNums ns) = Num (of_nat (a + sum_list ns))"
proof (induction ns arbitrary: a)
  case Nil
  show ?case by (simp add: tickNums_def)
next
  case (Cons n ns)
  have "a + n < 2 ^ 53"
    using Cons.prems by simp
  then have step: "dbl_add (Num (of_nat a)) (Num (of_nat n)) = Num (of_nat (a + n))"
    using dbl_of_nat [of "a + n"] by simp
  have "(a + n) + sum_list ns < 2 ^ 53"
    using Cons.prems by simp
  then have "foldl dbl_add (Num (of_nat (a + n))) (tickNums ns)
               = Num (of_nat ((a + n) + sum_list ns))"
    by (rule Cons.IH)
  then show ?case
    using step by (simp add: tickNums_def add.assoc)
qed

lemma js_sum_ticks: "sum_list ns < 2 ^ 53 \<Longrightarrow> js_sum (tickNums ns) = Num (tickTotal ns)"
  using foldl_dbl_add_ticks [of 0 ns] by (simp add: js_sum_def tickTotal_def)

lemma idle_le_total:
  assumes "4 \<le> length ns"
  shows "ns ! 3 + (if 4 < length ns then ns ! 4 else 0) \<le> sum_list (ns :: nat list)"
proof -
  have "ns = take 3 ns @ ns ! 3 # drop (Suc 3) ns"
    using assms by (intro id_take_nth_drop) simp
  from arg_cong [OF this, of sum_list]
  have s: "sum_list ns = sum_list (take 3 ns) + (ns ! 3 + sum_list (drop 4 ns))"
    by simp
  show ?thesis
  proof (cases "4 < length ns")
    case False
    then show ?thesis using s by simp
  next
    case True
    then have "drop 4 ns = ns ! 4 # drop (Suc 4) ns"
      by (rule Cons_nth_drop_Suc [symmetric])
    from arg_cong [OF this, of sum_list]
    have "sum_list (drop 4 ns) = ns ! 4 + sum_list (drop 5 ns)"
      by simp
    then show ?thesis using s True by simp
  qed
qed

lemma idleTicks_ticks:
  assumes "4 \<le> length ns" and "sum_list ns < 2 ^ 53"
  shows "idleTicks (tickNums ns) = Num (tickIdle ns)"
proof -
  define x where "x = (if 4 < length ns then ns ! 4 else 0)"
  have small: "ns ! 3 + x < 2 ^ 53"
    using idle_le_total [OF assms(1)] assms(2) unfolding x_def by simp
  have i3: "js_index (tickNums ns) 3 = Num (of_nat (ns ! 3))"
    using assms(1) by (simp add: js_index_def tickNums_def)
  have i4: "js_or0 (js_index (tickNums ns) 4) = Num (of_nat x)"
    by (simp add: js_index_def tickNums_def x_def)
  have "dbl (of_nat (ns ! 3) + of_nat x) = of_nat (ns ! 3 + x)"
    using dbl_of_nat [OF small] by simp
  then show ?thesis
    by (simp add: idleTicks_def i3 i4 tickIdle_def x_def)
qed

lemma cpuUsageOf_ticks:
  assumes "4 \<le> length cs" and "4 \<le> length ps"
    and "sum_list cs < 2 ^ 53" and "sum_list ps < 2 ^ 53"
  shows "cpuUsageOf (tickNums cs) (tickNums ps) =
     (if 0 < tickTotal cs - tickTotal ps
      then Num (max 0 (min 100
             (dbl (dbl ((tickTotal cs - tickTotal ps - (tickIdle cs - tickIdle ps))
                          / (tickTotal cs - tickTotal ps)) * 100))))
      else Num 0)"
proof -
  define tc where "tc = int (sum_list cs)"
  define tp where "tp = int (sum_list ps)"
  define ic where "ic = int (cs ! 3 + (if 4 < length cs then cs ! 4 else 0))"
  define ip where "ip = int (ps ! 3 + (if 4 < length ps then ps ! 4 else 0))"
  have bc: "0 \<le> ic" "ic \<le> tc" "tc < 2 ^ 53"
    using idle_le_total [OF assms(1)] assms(3) by (simp_all add: ic_def tc_def)
  have bp: "0 \<le> ip" "ip \<le> tp" "tp < 2 ^ 53"
    using idle_le_total [OF assms(2)] assms(4) by (simp_all add: ip_def tp_def)
  have T: "tickTotal cs - tickTotal ps = of_int (tc - tp)"
    by (simp add: tickTotal_def tc_def tp_def)
  have I: "tickIdle cs - tickIdle ps = of_int (ic - ip)"
    by (simp add: tickIdle_def ic_def ip_def)
  have TI: "tickTotal cs - tickTotal ps - (tickIdle cs - tickIdle ps)
              = of_int (tc - tp - (ic - ip))"
    unfolding T I by simp
  have dT: "dbl (tickTotal cs - tickTotal ps) = tickTotal cs - tickTotal ps"
    unfolding T using bc bp by (intro dbl_of_int) simp
  have dI: "dbl (tickIdle cs - tickIdle ps) = tickIdle cs - tickIdle ps"
    unfolding I using bc bp by (intro dbl_of_int) simp
  have dTI: "dbl (tickTotal cs - tickTotal ps - (tickIdle cs - tickIdle ps))
               = tickTotal cs - tickTotal ps - (tickIdle cs - tickIdle ps)"
    unfolding TI using bc bp by (intro dbl_of_int) simp
  show ?thesis
    by (simp add: cpuUsageOf_def js_sum_ticks [OF assms(3)] js_sum_ticks [OF assms(4)]
        idleTicks_ticks [OF assms(1,3)] idleTicks_ticks [OF assms(2,4)] dT dI dTI Let_def)
qed

lemma stats_sections_cpu:
  "cpuUsage (memorySection s x) = cpuUsage x \<and> cpuUsage (uptimeSection s x) = cpuUsage x
   \<and> cpuUsage (loadSection s x) = cpuUsage x"
  by (simp add: memorySection_def uptimeSection_def loadSection_def Let_def)

lemma ifContent_stats_cpu:
  "g = memorySection \<or> g = uptimeSection \<or> g = loadSection \<Longrightarrow>
   cpuUsage (snd (ifContent a (\<lambda>s. apsnd (g s)) ps)) = cpuUsage (snd ps)"
  using ifContent_cases [of a "\<lambda>s. apsnd (g s)" ps] stats_sections_cpu
  by (cases ps) auto

lemma beforeDisk_cpu:
  assumes "s \<noteq> []" and "prevCpuTimes st = Some prev"
  shows "cpuUsage (snd (beforeDisk clk (Some s) b c d st))
           = cpuUsageOf (parseCpuLine (hd (splitOn CHR 0x0A s))) prev"
proof -
  have "cpuUsage (snd (cpuSection clk s (st, initialStats)))
           = cpuUsageOf (parseCpuLine (hd (splitOn CHR 0x0A s))) prev"
    by (simp add: cpuSection_def Let_def assms(2))
  then show ?thesis
    unfolding beforeDisk_def ifContent_Some [OF assms(1)]
    by (simp add: ifContent_stats_cpu)
qed

lemma pass_cpu:
  assumes "s \<noteq> []" and "prevCpuTimes st = Some prev"
  shows "cpuUsage (fst (fetchSystemStats clk (resolvedReads (Some s) b c d e f) st))
           = cpuUsageOf (parseCpuLine (hd (splitOn CHR 0x0A s))) prev"
proof -
  let ?bd = "beforeDisk clk (Some s) b c d st"
  let ?ad = "ifContent e (diskSection clk) ?bd"
  let ?an = "ifContent f (netRun clk) ?ad"
  have d: "cpuUsage (snd ?ad) = cpuUsage (snd ?bd)"
    using ifContent_cases [of e "diskSection clk" ?bd] diskSection_cpu [of clk _ ?bd] by auto
  have n: "cpuUsage (snd ?an) = cpuUsage (snd ?ad)"
    using ifContent_cases [of f "netRun clk" ?ad] netRun_frame [of clk _ ?ad] by auto
  have u: "snd (updateHistory clk ?an) = snd ?an"
    using updateHistory_frame [of clk ?an] by simp
  show ?thesis
    unfolding fetch_resolved fst_conv u n d by (rule beforeDisk_cpu [OF assms])
qed

lemmas cpu_eval_defs = cpuSection_def parseCpuLine_def Number_def readDecimal_def
  readExponent_def fraction_def radixLiteral_def cpuUsageOf_def idleTicks_def js_index_def
  js_sum_def isCoreLine_def tickNums_def tickTotal_def tickIdle_def
  dbl_zero dbl_one dbl_numeral dbl_minus dbl_half

lemma dbl_seven_percent: "dbl (dbl (7 / 100) * 100) = 7 + 1 / 2 ^ 50"
  by code_simp

text \<open>
  C8, as the claim states it, fails in two ways. Where the idle part goes back between
  two passes the code clamps the percentage to the range from 0 to 100: after the line
  \<open>cpu 0 0 0 10 0\<close> the line \<open>cpu 10 0 0 5 0\<close> has a total delta of 5 and an idle delta
  of -5; the formula of the claim gives 200, the pass returns 100. And the code divides
  first and multiplies by 100 afterwards, in doubles: after the line \<open>cpu 0 0 0 0 0\<close>
  the line \<open>cpu 7 0 0 93 0\<close> has a total delta of 100 and an idle delta of 93; the
  formula of the claim gives 7, the pass returns the next double above 7, which is
  \<open>7 + 2^-50\<close> (printed as 7.000000000000001), since 7/100 is not a double.
\<close>

theorem cpu_usage_counterexample:
  "cpuUsage (fst (fetchSystemStats (\<lambda>n. int n)
       (resolvedReads (Some ''cpu 10 0 0 5 0'') None None None None None)
       (snd (fetchSystemStats (\<lambda>n. int n)
          (resolvedReads (Some ''cpu 0 0 0 10 0'') None None None None None) initialEngine))))
     = Num 100
   \<and> parseCpuLine ''cpu 10 0 0 5 0'' = tickNums [10, 0, 0, 5, 0]
   \<and> parseCpuLine ''cpu 0 0 0 10 0'' = tickNums [0, 0, 0, 10, 0]
   \<and> 100 * ((tickTotal [10, 0, 0, 5, 0] - tickTotal [0, 0, 0, 10, 0])
             - (tickIdle [10, 0, 0, 5, 0] - tickIdle [0, 0, 0, 10, 0]))
          / (tickTotal [10, 0, 0, 5, 0] - tickTotal [0, 0, 0, 10, 0]) = 200
   \<and> cpuUsage (fst (fetchSystemStats (\<lambda>n. int n)
       (resolvedReads (Some ''cpu 7 0 0 93 0'') None None None None None)
       (snd (fetchSystemStats (\<lambda>n. int n)
          (resolvedReads (Some ''cpu 0 0 0 0 0'') None None None None None) initialEngine))))
     = Num (7 + 1 / 2 ^ 50)
   \<and> parseCpuLine ''cpu 7 0 0 93 0'' = tickNums [7, 0, 0, 93, 0]
   \<and> parseCpuLine ''cpu 0 0 0 0 0'' = tickNums [0, 0, 0, 0, 0]
   \<and> 100 * ((tickTotal [7, 0, 0, 93, 0] - tickTotal [0, 0, 0, 0, 0])
             - (tickIdle [7, 0, 0, 93, 0] - tickIdle [0, 0, 0, 0, 0]))
          / (tickTotal [7, 0, 0, 93, 0] - tickTotal [0, 0, 0, 0, 0]) = 7"
proof -
  have c1: "cpuUsage (fst (fetchSystemStats (\<lambda>n. int n)
       (resolvedReads (Some ''cpu 10 0 0 5 0'') None None None None None)
       (snd (fetchSystemStats (\<lambda>n. int n)
          (resolvedReads (Some ''cpu 0 0 0 10 0'') None None None None None) initialEngine))))
     = Num 100"
    by (simp add: eval_defs cpu_eval_defs)
  have c2: "cpuUsage (fst (fetchSystemStats (\<lambda>n. int n)
       (resolvedReads (Some ''cpu 7 0 0 93 0'') None None None None None)
       (snd (fetchSystemStats (\<lambda>n. int n)
          (resolvedReads (Some ''cpu 0 0 0 0 0'') None None None None None) initialEngine))))
     = Num (7 + 1 / 2 ^ 50)"
    by (simp add: eval_defs cpu_eval_defs dbl_seven_percent)
  have p: "parseCpuLine ''cpu 10 0 0 5 0'' = tickNums [10, 0, 0, 5, 0]"
      "parseCpuLine ''cpu 0 0 0 10 0'' = tickNums [0, 0, 0, 10, 0]"
      "parseCpuLine ''cpu 7 0 0 93 0'' = tickNums [7, 0, 0, 93, 0]"
      "parseCpuLine ''cpu 0 0 0 0 0'' = tickNums [0, 0, 0, 0, 0]"
    by (simp_all add: eval_defs cpu_eval_defs)
  have f: "100 * ((tickTotal [10, 0, 0, 5, 0] - tickTotal [0, 0, 0, 10, 0])
             - (tickIdle [10, 0, 0, 5, 0] - tickIdle [0, 0, 0, 10, 0]))
          / (tickTotal [10, 0, 0, 5, 0] - tickTotal [0, 0, 0, 10, 0]) = 200"
      "100 * ((tickTotal [7, 0, 0, 93, 0] - tickTotal [0, 0, 0, 0, 0])
             - (tickIdle [7, 0, 0, 93, 0] - tickIdle [0, 0, 0, 0, 0]))
          / (tickTotal [7, 0, 0, 93, 0] - tickTotal [0, 0, 0, 0, 0]) = 7"
    by (simp_all add: tickTotal_def tickIdle_def)
  show ?thesis
    using c1 c2 p f by (intro conjI)
qed

text \<open>
  C8, amended. Let the previous line hold the ticks \<open>ps\<close> and the first line of the
  content read hold the ticks \<open>cs\<close> (at least four natural numbers each, of a sum below
  \<open>2^53\<close>, so that the sums and the deltas are exact). With \<open>T\<close> the total delta and \<open>I\<close>
  the idle delta, the usage the pass returns is 0 when \<open>T\<close> is zero or negative, and
  otherwise the value of \<open>((T - I) / T) * 100\<close> as the double arithmetic computes it (the
  quotient rounded to a double, its product with 100 rounded to a double) clamped to the
  range from 0 to 100. It is \<open>100 * (T - I) / T\<close> clamped to that range whenever the
  quotient and the product are doubles. For the line \<open>cpu 100 0 50 800 50 0 0 0\<close>
  followed one pass later by \<open>cpu 120 0 60 820 60 0 0 0\<close> the total delta is 60, the
  idle delta 30 and the usage 50.
\<close>

theorem cpu_usage:
  assumes "4 \<le> length cs" and "4 \<le> length ps" and "s \<noteq> []"
    and "sum_list cs < 2 ^ 53" and "sum_list ps < 2 ^ 53"
    and "prevCpuTimes st = Some (tickNums ps)"
    and "parseCpuLine (hd (splitOn CHR 0x0A s)) = tickNums cs"
  shows "cpuUsage (fst (fetchSystemStats clk (resolvedReads (Some s) b c d e f) st)) =
     (if 0 < tickTotal cs - tickTotal ps
      then Num (max 0 (min 100
             (dbl (dbl (((tickTotal cs - tickTotal ps) - (tickIdle cs - tickIdle ps))
                          / (tickTotal cs - tickTotal ps)) * 100))))
      else Num 0)
   \<and> (0 < tickTotal cs - tickTotal ps
        \<and> dbl (((tickTotal cs - tickTotal ps) - (tickIdle cs - tickIdle ps))
                 / (tickTotal cs - tickTotal ps))
            = ((tickTotal cs - tickTotal ps) - (tickIdle cs - tickIdle ps))
                 / (tickTotal cs - tickTotal ps)
        \<and> dbl (((tickTotal cs - tickTotal ps) - (tickIdle cs - tickIdle ps))
                 / (tickTotal cs - tickTotal ps) * 100)
            = ((tickTotal cs - tickTotal ps) - (tickIdle cs - tickIdle ps))
                 / (tickTotal cs - tickTotal ps) * 100 \<longrightarrow>
      cpuUsage (fst (fetchSystemStats clk (resolvedReads (Some s) b c d e f) st)) =
        Num (max 0 (min 100
              (100 * ((tickTotal cs - tickTotal ps) - (tickIdle cs - tickIdle ps))
                 / (tickTotal cs - tickTotal ps)))))
   \<and> parseCpuLine ''cpu 100 0 50 800 50 0 0 0'' = tickNums [100, 0, 50, 800, 50, 0, 0, 0]
   \<and> parseCpuLine ''cpu 120 0 60 820 60 0 0 0'' = tickNums [120, 0, 60, 820, 60, 0, 0, 0]
   \<and> tickTotal [120, 0, 60, 820, 60, 0, 0, 0] - tickTotal [100, 0, 50, 800, 50, 0, 0, 0] = 60
   \<and> tickIdle [120, 0, 60, 820, 60, 0, 0, 0] - tickIdle [100, 0, 50, 800, 50, 0, 0, 0] = 30
   \<and> cpuUsage (fst (fetchSystemStats (\<lambda>n. 2000 * int (n div 7))
         (resolvedReads (Some ''cpu 120 0 60 820 60 0 0 0'') None None None None None)
         (snd (fetchSystemStats (\<lambda>n. 2000 * int (n div 7))
            (resolvedReads (Some ''cpu 100 0 50 800 50 0 0 0'') None None None None None)
            initialEngine)))) = Num 50"
proof -
  define T where "T = tickTotal cs - tickTotal ps"
  define I where "I = tickIdle cs - tickIdle ps"
  define u where "u = cpuUsage (fst (fetchSystemStats clk (resolvedReads (Some s) b c d e f) st))"
  have "u = cpuUsageOf (tickNums cs) (tickNums ps)"
    unfolding u_def using pass_cpu [OF assms(3,6), of clk b c d e f] by (simp add: assms(7))
  also have "\<dots> = (if 0 < T then Num (max 0 (min 100 (dbl (dbl ((T - I) / T) * 100)))) else Num 0)"
    unfolding T_def I_def by (rule cpuUsageOf_ticks [OF assms(1,2,4,5)])
  finally have gen: "u = (if 0 < T then Num (max 0 (min 100 (dbl (dbl ((T - I) / T) * 100))))
                          else Num 0)" .
  have exact: "u = Num (max 0 (min 100 (100 * (T - I) / T)))"
    if "0 < T" "dbl ((T - I) / T) = (T - I) / T" "dbl ((T - I) / T * 100) = (T - I) / T * 100"
  proof -
    have "u = Num (max 0 (min 100 ((T - I) / T * 100)))"
      unfolding gen using that by simp
    also have "(T - I) / T * 100 = 100 * (T - I) / T"
      by simp
    finally show ?thesis .
  qed
  have p1: "parseCpuLine ''cpu 100 0 50 800 50 0 0 0'' = tickNums [100, 0, 50, 800, 50, 0, 0, 0]"
    and p2: "parseCpuLine ''cpu 120 0 60 820 60 0 0 0'' = tickNums [120, 0, 60, 820, 60, 0, 0, 0]"
    by (simp_all add: eval_defs cpu_eval_defs)
  have t: "tickTotal [120, 0, 60, 820, 60, 0, 0, 0] - tickTotal [100, 0, 50, 800, 50, 0, 0, 0] = 60"
    and i: "tickIdle [120, 0, 60, 820, 60, 0, 0, 0] - tickIdle [100, 0, 50, 800, 50, 0, 0, 0] = 30"
    by (simp_all add: tickTotal_def tickIdle_def)
  have sc: "cpuUsage (fst (fetchSystemStats (\<lambda>n. 2000 * int (n div 7))
         (resolvedReads (Some ''cpu 120 0 60 820 60 0 0 0'') None None None None None)
         (snd (fetchSystemStats (\<lambda>n. 2000 * int (n div 7))
            (resolvedReads (Some ''cpu 100 0 50 800 50 0 0 0'') None None None None None)
            initialEngine)))) = Num 50"
    by (simp add: eval_defs cpu_eval_defs)
  show ?thesis
    using gen exact p1 p2 t i sc unfolding u_def T_def I_def by (intro conjI impI) simp_all
qed

text \<open>The theorem at the two lines of the scenario.\<close>

theorem cpu_usage_witness:
  "parseCpuLine (hd (splitOn CHR 0x0A ''cpu 120 0 60 820 60 0 0 0''))
     = tickNums [120, 0, 60, 820, 60, 0, 0, 0]
   \<and> sum_list [120, 0, 60, 820, 60, 0, 0, 0] < (2::nat) ^ 53
   \<and> sum_list [100, 0, 50, 800, 50, 0, 0, 0] < (2::nat) ^ 53
   \<and> cpuUsage (fst (fetchSystemStats (\<lambda>n. 2000)
        (resolvedReads (Some ''cpu 120 0 60 820 60 0 0 0'') None None None None None)
        (initialEngine\<lparr>prevCpuTimes := Some (tickNums [100, 0, 50, 800, 50, 0, 0, 0])\<rparr>)))
     = Num 50"
proof -
  define st where "st = initialEngine\<lparr>prevCpuTimes := Some (tickNums [100, 0, 50, 800, 50, 0, 0, 0])\<rparr>"
  have h1: "4 \<le> length [120, 0, 60, 820, 60, 0, 0, 0 :: nat]"
    and h2: "4 \<le> length [100, 0, 50, 800, 50, 0, 0, 0 :: nat]"
    and h3: "''cpu 120 0 60 820 60 0 0 0'' \<noteq> []"
    and h4: "sum_list [120, 0, 60, 820, 60, 0, 0, 0] < (2::nat) ^ 53"
    and h5: "sum_list [100, 0, 50, 800, 50, 0, 0, 0] < (2::nat) ^ 53"
    by simp_all
  have h6: "prevCpuTimes st = Some (tickNums [100, 0, 50, 800, 50, 0, 0, 0])"
    by (simp add: st_def)
  have h7: "parseCpuLine (hd (splitOn CHR 0x0A ''cpu 120 0 60 820 60 0 0 0''))
     = tickNums [120, 0, 60, 820, 60, 0, 0, 0]"
    by (simp add: eval_defs cpu_eval_defs)
  note main = cpu_usage [OF h1 h2 h3 h4 h5 h6 h7, of "\<lambda>n. 2000" None None None None None]
  from main have "cpuUsage (fst (fetchSystemStats (\<lambda>n. 2000)
        (resolvedReads (Some ''cpu 120 0 60 820 60 0 0 0'') None None None None None) st)) =
     (if 0 < tickTotal [120, 0, 60, 820, 60, 0, 0, 0] - tickTotal [100, 0, 50, 800, 50, 0, 0, 0]
      then Num (max 0 (min 100
             (dbl (dbl (((tickTotal [120, 0, 60, 820, 60, 0, 0, 0] - tickTotal [100, 0, 50, 800, 50, 0, 0, 0])
                  - (tickIdle [120, 0, 60, 820, 60, 0, 0, 0] - tickIdle [100, 0, 50, 800, 50, 0, 0, 0]))
                / (tickTotal [120, 0, 60, 820, 60, 0, 0, 0] - tickTotal [100, 0, 50, 800, 50, 0, 0, 0])) * 100))))
      else Num 0)"
    by (rule conjunct1)
  also have "\<dots> = Num 50"
    by (simp add: tickTotal_def tickIdle_def dbl_half dbl_numeral)
  finally show ?thesis
    using h4 h5 h7 unfolding st_def by (intro conjI)
qed

section \<open>The read rate of a disk\<close>

text \<open>
  C9. The counters of a device are its sector counts times 512. With the previous
  snapshot taken at \<open>t0\<close> from \<open>s0\<close> sectors and the current pass at \<open>t1 > t0\<close> with
  \<open>s1\<close> sectors, the read rate of the device is the difference of the bytes, divided by
  1024 and by the elapsed seconds (and never below 0). For \<open>sda\<close> with 1000 sectors
  read in one pass and 1512 in the next, 1000 ms later, the pass returns 256 KB/s.
\<close>

theorem disk_read_rate:
  assumes "t0 < t1"
  shows "perDiskStats (snd (perDiskStep clk t1
          (st\<lparr>prevPerDiskStats := (prevPerDiskStats st)(k \<mapsto>
                \<lparr>timestamp = t0, readBytes = js_mul (Num s0) (Num 512), writeBytes = w0\<rparr>)\<rparr>, stats)
          (k, \<lparr>read_cur = js_mul (Num s1) (Num 512), write_cur = w1\<rparr>))) k
         = Some \<lparr>readRate = Num (max 0 ((s1 * 512 - s0 * 512) / 1024 / (of_int (t1 - t0) / 1000))),
                 writeRate = kbRate w1 w0 (elapsedSec t1 t0)\<rparr>
   \<and> currentPerDisk ''8 0 sda 0 0 1000 0 0 0 0 0 0 0 0''
       = [(''sda'', \<lparr>read_cur = js_mul (Num 1000) (Num 512), write_cur = Num 0\<rparr>)]
   \<and> currentPerDisk ''8 0 sda 0 0 1512 0 0 0 0 0 0 0 0''
       = [(''sda'', \<lparr>read_cur = js_mul (Num 1512) (Num 512), write_cur = Num 0\<rparr>)]
   \<and> (1512 * 512 - 1000 * 512) / 1024 / (of_int (1000 - 0) / 1000) = (256::rat)
   \<and> perDiskStats (fst (fetchSystemStats (\<lambda>n. 1000 * int (n div 7))
         (resolvedReads None None None None (Some ''8 0 sda 0 0 1512 0 0 0 0 0 0 0 0'') None)
         (snd (fetchSystemStats (\<lambda>n. 1000 * int (n div 7))
           (resolvedReads None None None None (Some ''8 0 sda 0 0 1000 0 0 0 0 0 0 0 0'') None)
           initialEngine)))) ''sda''
       = Some \<lparr>readRate = Num 256, writeRate = Num 0\<rparr>
   \<and> timestamp (the (prevPerDiskStats (snd (fetchSystemStats (\<lambda>n. 1000 * int (n div 7))
         (resolvedReads None None None None (Some ''8 0 sda 0 0 1512 0 0 0 0 0 0 0 0'') None)
         (snd (fetchSystemStats (\<lambda>n. 1000 * int (n div 7))
           (resolvedReads None None None None (Some ''8 0 sda 0 0 1000 0 0 0 0 0 0 0 0'') None)
           initialEngine)))) ''sda''))
     - timestamp (the (prevPerDiskStats (snd (fetchSystemStats (\<lambda>n. 1000 * int (n div 7))
           (resolvedReads None None None None (Some ''8 0 sda 0 0 1000 0 0 0 0 0 0 0 0'') None)
           initialEngine)) ''sda'')) = 1000"
proof -
  let ?d = "of_int (t1 - t0) / 1000 :: rat"
  have d: "0 < ?d" using assms by simp
  have gt: "js_gt (elapsedSec t1 t0) (Num 0)" using assms by (rule elapsed_pos)
  have el: "elapsedSec t1 t0 = Num ?d" by (simp add: elapsedSec_def)
  have kr: "kbRate (Num (s1 * 512)) (Num (s0 * 512)) (elapsedSec t1 t0)
              = Num (max 0 ((s1 * 512 - s0 * 512) / 1024 / ?d))"
    unfolding el using d by (rule kbRate_Num)
  have gen: "perDiskStats (snd (perDiskStep clk t1
          (st\<lparr>prevPerDiskStats := (prevPerDiskStats st)(k \<mapsto>
                \<lparr>timestamp = t0, readBytes = js_mul (Num s0) (Num 512), writeBytes = w0\<rparr>)\<rparr>, stats)
          (k, \<lparr>read_cur = js_mul (Num s1) (Num 512), write_cur = w1\<rparr>))) k
         = Some \<lparr>readRate = Num (max 0 ((s1 * 512 - s0 * 512) / 1024 / ?d)),
                 writeRate = kbRate w1 w0 (elapsedSec t1 t0)\<rparr>"
    using gt kr
    by (simp add: perDiskStep_def perDiskRates_def dateNow_def Let_def split_def)
  have c1: "currentPerDisk ''8 0 sda 0 0 1000 0 0 0 0 0 0 0 0''
       = [(''sda'', \<lparr>read_cur = js_mul (Num 1000) (Num 512), write_cur = Num 0\<rparr>)]"
    and c2: "currentPerDisk ''8 0 sda 0 0 1512 0 0 0 0 0 0 0 0''
       = [(''sda'', \<lparr>read_cur = js_mul (Num 1512) (Num 512), write_cur = Num 0\<rparr>)]"
    by (simp_all add: eval_defs)
  have ar: "(1512 * 512 - 1000 * 512) / 1024 / (of_int (1000 - 0) / 1000) = (256::rat)"
    by simp
  have sc: "perDiskStats (fst (fetchSystemStats (\<lambda>n. 1000 * int (n div 7))
         (resolvedReads None None None None (Some ''8 0 sda 0 0 1512 0 0 0 0 0 0 0 0'') None)
         (snd (fetchSystemStats (\<lambda>n. 1000 * int (n div 7))
           (resolvedReads None None None None (Some ''8 0 sda 0 0 1000 0 0 0 0 0 0 0 0'') None)
           initialEngine)))) ''sda''
       = Some \<lparr>readRate = Num 256, writeRate = Num 0\<rparr>"
    by (simp add: eval_defs)
  have ts: "timestamp (the (prevPerDiskStats (snd (fetchSystemStats (\<lambda>n. 1000 * int (n div 7))
         (resolvedReads None None None None (Some ''8 0 sda 0 0 1512 0 0 0 0 0 0 0 0'') None)
         (snd (fetchSystemStats (\<lambda>n. 1000 * int (n div 7))
           (resolvedReads None None None None (Some ''8 0 sda 0 0 1000 0 0 0 0 0 0 0 0'') None)
           initialEngine)))) ''sda''))
     - timestamp (the (prevPerDiskStats (snd (fetchSystemStats (\<lambda>n. 1000 * int (n div 7))
           (resolvedReads None None None None (Some ''8 0 sda 0 0 1000 0 0 0 0 0 0 0 0'') None)
           initialEngine)) ''sda'')) = 1000"
    by (simp add: eval_defs)
  show ?thesis
    using gen c1 c2 ar sc ts by (intro conjI)
qed

text \<open>The theorem at the numbers of the scenario.\<close>

theorem disk_read_rate_witness:
  "(0::int) < 1000
   \<and> perDiskStats (snd (perDiskStep (\<lambda>n. 1000) 1000
          (initialEngine\<lparr>prevPerDiskStats := (prevPerDiskStats initialEngine)(''sda'' \<mapsto>
                \<lparr>timestamp = 0, readBytes = js_mul (Num 1000) (Num 512), writeBytes = Num 0\<rparr>)\<rparr>,
           initialStats)
          (''sda'', \<lparr>read_cur = js_mul (Num 1512) (Num 512), write_cur = Num 0\<rparr>))) ''sda''
         = Some \<lparr>readRate = Num 256, writeRate = Num 0\<rparr>"
proof -
  have h: "(0::int) < 1000" by simp
  note main = disk_read_rate [OF h, of "\<lambda>n. 1000" initialEngine "''sda''" 1000 "Num 0"
      initialStats 1512 "Num 0"]
  from main have "perDiskStats (snd (perDiskStep (\<lambda>n. 1000) 1000
          (initialEngine\<lparr>prevPerDiskStats := (prevPerDiskStats initialEngine)(''sda'' \<mapsto>
                \<lparr>timestamp = 0, readBytes = js_mul (Num 1000) (Num 512), writeBytes = Num 0\<rparr>)\<rparr>,
           initialStats)
          (''sda'', \<lparr>read_cur = js_mul (Num 1512) (Num 512), write_cur = Num 0\<rparr>))) ''sda''
         = Some \<lparr>readRate = Num (max 0 ((1512 * 512 - 1000 * 512) / 1024 / (of_int (1000 - 0) / 1000))),
                 writeRate = kbRate (Num 0) (Num 0) (elapsedSec 1000 0)\<rparr>"
    by (rule conjunct1)
  also have "\<dots> = Some \<lparr>readRate = Num 256, writeRate = Num 0\<rparr>"
    by (simp add: kbRate_def elapsedSec_def)
  finally show ?thesis
    using h by (intro conjI)
qed

section \<open>Which devices are counted\<close>

lemma startsWithThenLower_iff:
  "startsWithThenLower p d \<longleftrightarrow> (\<exists>ch rest. d = p @ ch # rest \<and> isLower ch)"
proof
  assume a: "startsWithThenLower p d"
  then have t: "take (length p) d = p" and l: "length p < length d" and lo: "isLower (d ! length p)"
    by (simp_all add: startsWithThenLower_def)
  from l have "drop (length p) d = d ! length p # drop (Suc (length p)) d"
    by (simp add: Cons_nth_drop_Suc)
  then have "d = p @ d ! length p # drop (Suc (length p)) d"
    using t by (metis append_take_drop_id)
  with lo show "\<exists>ch rest. d = p @ ch # rest \<and> isLower ch" by blast
next
  assume "\<exists>ch rest. d = p @ ch # rest \<and> isLower ch"
  then show "startsWithThenLower p d"
    by (auto simp: startsWithThenLower_def)
qed

lemma isDiskDevice_iff:
  "isDiskDevice d \<longleftrightarrow>
     (\<exists>p ch rest. p \<in> {''sd'', ''nvme'', ''vd'', ''xvd'', ''hd''} \<and> d = p @ ch # rest \<and> isLower ch)
     \<and> \<not> endsInDigit d"
  unfolding isDiskDevice_def diskPrefixes_def list_ex_iff startsWithThenLower_iff
  by auto

text \<open>
  No inherited name passes the test on device names, and no array index does: the disk
  section reads own properties of \<open>prevPerDiskStats\<close> and \<open>perDiskHistories\<close> or
  nothing, and \<open>Object.entries(currentPerDisk)\<close> lists the devices in the order of their
  first line.
\<close>

lemma inheritedNames_not_disks: "\<forall>n \<in> set inheritedNames. \<not> isDiskDevice n"
  by (simp add: inheritedNames_def isDiskDevice_def startsWithThenLower_def diskPrefixes_def
      endsInDigit_def isLower_def isDigit_def)

lemma arrayIndex_not_disk: "isDiskDevice d \<Longrightarrow> \<not> isArrayIndex d"
  by (auto simp: isDiskDevice_iff isArrayIndex_def isDigit_def)

lemma diskLine_counted:
  "diskLine acc line \<noteq> acc \<Longrightarrow>
   14 \<le> length (splitWs (trim line)) \<and> isDiskDevice (splitWs (trim line) ! 2)"
  by (cases acc) (auto simp: diskLine_def Let_def split: if_splits)


lemma endsInDigit_not_disk: "endsInDigit d \<Longrightarrow> \<not> isDiskDevice d"
  by (simp add: isDiskDevice_def)

lemma foldl_diskLine_none:
  "\<forall>l \<in> set ls. 14 \<le> length (splitWs (trim l)) \<longrightarrow> endsInDigit (splitWs (trim l) ! 2) \<Longrightarrow>
   foldl diskLine acc ls = acc"
proof (induction ls arbitrary: acc)
  case Nil
  show ?case by simp
next
  case (Cons l ls)
  have "diskLine acc l = acc"
    using Cons.prems diskLine_counted [of acc l] endsInDigit_not_disk by auto
  then show ?case
    using Cons by simp
qed

lemma diskLines_none: "namesEndInDigit e \<Longrightarrow> diskLines e = (Num 0, Num 0, [])"
  unfolding namesEndInDigit_def diskLines_def by (rule foldl_diskLine_none)

lemma kbRate_zero: "js_gt dt (Num 0) \<Longrightarrow> kbRate (Num 0) (Num 0) dt = Num 0"
  by (cases dt) (simp_all add: kbRate_def)

lemma diskSection_idle:
  assumes "namesEndInDigit e" and "diskIdle (fst ps)"
    and "diskReadRate (snd ps) = Num 0" and "diskWriteRate (snd ps) = Num 0"
  shows "diskReadRate (snd (diskSection clk e ps)) = Num 0
   \<and> diskWriteRate (snd (diskSection clk e ps)) = Num 0
   \<and> perDiskStats (snd (diskSection clk e ps)) = perDiskStats (snd ps)
   \<and> diskIdle (fst (diskSection clk e ps))"
proof -
  obtain st stats where ps: "ps = (st, stats)" by (cases ps)
  have dl: "diskLines e = (Num 0, Num 0, [])"
    using assms(1) by (rule diskLines_none)
  have cur: "currentPerDisk e = []"
    by (simp add: currentPerDisk_def dl)
  show ?thesis
    using assms(2,3,4)
    unfolding ps diskSection_unfold cur dl
    by (auto simp: diskAggregate_def diskIdle_def Let_def kbRate_zero split: option.splits)
qed

lemma pass_idle:
  assumes "namesEndInDigit e" and "diskIdle st"
  shows "diskReadRate (fst (fetchSystemStats clk (resolvedReads a b c d (Some e) f) st)) = Num 0
   \<and> diskWriteRate (fst (fetchSystemStats clk (resolvedReads a b c d (Some e) f) st)) = Num 0
   \<and> perDiskStats (fst (fetchSystemStats clk (resolvedReads a b c d (Some e) f) st)) = Map.empty
   \<and> diskIdle (snd (fetchSystemStats clk (resolvedReads a b c d (Some e) f) st))"
proof -
  let ?bd = "beforeDisk clk a b c d st"
  let ?ad = "ifContent (Some e) (diskSection clk) ?bd"
  have bd: "prevDiskStats (fst ?bd) = prevDiskStats st" "diskReadRate (snd ?bd) = Num 0"
      "diskWriteRate (snd ?bd) = Num 0" "perDiskStats (snd ?bd) = Map.empty"
    using beforeDisk_vars [of clk a b c d st] by simp_all
  have idle: "diskIdle (fst ?bd)"
    using assms(2) by (simp add: diskIdle_def bd)
  have "diskReadRate (snd ?ad) = Num 0 \<and> diskWriteRate (snd ?ad) = Num 0
      \<and> perDiskStats (snd ?ad) = Map.empty \<and> diskIdle (fst ?ad)"
  proof (cases "e = []")
    case True
    then show ?thesis using bd idle by (simp add: ifContent_def)
  next
    case False
    show ?thesis
      unfolding ifContent_Some [OF False]
      using diskSection_idle [OF assms(1) idle bd(2,3), of clk] bd(4) by simp
  qed
  then show ?thesis
    using pass_disk_fields [of clk a b c d "Some e" f st]
    by (simp add: diskIdle_def)
qed

text \<open>
  C10. A line of the disk statistics changes the totals and \<open>currentPerDisk\<close> only if it
  has at least 14 fields and its device name is one of \<open>sd\<close>, \<open>nvme\<close>, \<open>vd\<close>, \<open>xvd\<close>,
  \<open>hd\<close> followed at once by a lowercase letter, and does not end in a digit. So no
  name that ends in a digit is counted; \<open>nvme0n1\<close> is not (a digit follows \<open>nvme\<close>, and
  the name ends in a digit). When every device name of the content ends in a digit, the
  pass returns the disk rates 0 and an empty \<open>perDiskStats\<close>, and the aggregate snapshot
  holds the totals 0 again: this holds for the first pass and for every pass after it.
\<close>

theorem disk_device_filter:
  assumes "namesEndInDigit e" and "diskIdle st"
  shows "(diskLine acc line \<noteq> acc \<longrightarrow>
            14 \<le> length (splitWs (trim line))
          \<and> (\<exists>p ch rest. p \<in> {''sd'', ''nvme'', ''vd'', ''xvd'', ''hd''}
                \<and> splitWs (trim line) ! 2 = p @ ch # rest \<and> isLower ch)
          \<and> \<not> endsInDigit (splitWs (trim line) ! 2))
   \<and> (endsInDigit dev \<longrightarrow> \<not> isDiskDevice dev)
   \<and> \<not> isLower (''nvme0n1'' ! 4) \<and> endsInDigit ''nvme0n1'' \<and> \<not> isDiskDevice ''nvme0n1''
   \<and> diskIdle initialEngine
   \<and> diskReadRate (fst (fetchSystemStats clk (resolvedReads a b c d (Some e) f) st)) = Num 0
   \<and> diskWriteRate (fst (fetchSystemStats clk (resolvedReads a b c d (Some e) f) st)) = Num 0
   \<and> perDiskStats (fst (fetchSystemStats clk (resolvedReads a b c d (Some e) f) st)) = Map.empty
   \<and> diskIdle (snd (fetchSystemStats clk (resolvedReads a b c d (Some e) f) st))"
proof -
  have p1: "diskLine acc line \<noteq> acc \<longrightarrow>
            14 \<le> length (splitWs (trim line))
          \<and> (\<exists>p ch rest. p \<in> {''sd'', ''nvme'', ''vd'', ''xvd'', ''hd''}
                \<and> splitWs (trim line) ! 2 = p @ ch # rest \<and> isLower ch)
          \<and> \<not> endsInDigit (splitWs (trim line) ! 2)"
    using diskLine_counted [of acc line] isDiskDevice_iff [of "splitWs (trim line) ! 2"]
    by blast
  have p2: "endsInDigit dev \<longrightarrow> \<not> isDiskDevice dev"
    using endsInDigit_not_disk by blast
  have p3: "\<not> isLower (''nvme0n1'' ! 4)" "endsInDigit ''nvme0n1''" "\<not> isDiskDevice ''nvme0n1''"
    by (simp_all add: isLower_def endsInDigit_def isDigit_def isDiskDevice_def)
  have p4: "diskIdle initialEngine"
    by (simp add: diskIdle_def initialEngine_def)
  show ?thesis
    using p1 p2 p3 p4 pass_idle [OF assms, of clk a b c d f] by (intro conjI) simp_all
qed

text \<open>
  The theorem at the statistics of a system with one NVMe disk and one partition, and
  at a line for \<open>sda\<close>, which is counted.
\<close>

theorem disk_device_filter_witness:
  "namesEndInDigit (''259 0 nvme0n1 0 0 1000 0 0 0 0 0 0 0 0'' @ [CHR 0x0A]
       @ ''259 1 nvme0n1p1 0 0 900 0 0 0 0 0 0 0 0'')
   \<and> diskIdle initialEngine
   \<and> diskLine (Num 0, Num 0, []) ''8 0 sda 0 0 1000 0 0 0 0 0 0 0 0'' \<noteq> (Num 0, Num 0, [])
   \<and> \<not> endsInDigit (splitWs (trim ''8 0 sda 0 0 1000 0 0 0 0 0 0 0 0'') ! 2)
   \<and> diskReadRate (fst (fetchSystemStats (\<lambda>n. 1000 * int n)
        (resolvedReads None None None None
           (Some (''259 0 nvme0n1 0 0 1000 0 0 0 0 0 0 0 0'' @ [CHR 0x0A]
                  @ ''259 1 nvme0n1p1 0 0 900 0 0 0 0 0 0 0 0'')) None)
        initialEngine)) = Num 0
   \<and> perDiskStats (fst (fetchSystemStats (\<lambda>n. 1000 * int n)
        (resolvedReads None None None None
           (Some (''259 0 nvme0n1 0 0 1000 0 0 0 0 0 0 0 0'' @ [CHR 0x0A]
                  @ ''259 1 nvme0n1p1 0 0 900 0 0 0 0 0 0 0 0'')) None)
        initialEngine)) = Map.empty"
proof -
  define e where "e = ''259 0 nvme0n1 0 0 1000 0 0 0 0 0 0 0 0'' @ [CHR 0x0A]
       @ ''259 1 nvme0n1p1 0 0 900 0 0 0 0 0 0 0 0''"
  define line where "line = ''8 0 sda 0 0 1000 0 0 0 0 0 0 0 0''"
  have h1: "namesEndInDigit e"
    unfolding e_def by (simp add: namesEndInDigit_def eval_defs)
  have h2: "diskIdle initialEngine"
    by (simp add: diskIdle_def initialEngine_def)
  have ch: "diskLine (Num 0, Num 0, []) line \<noteq> (Num 0, Num 0, [])"
    unfolding line_def by (simp add: eval_defs)
  note main = disk_device_filter [OF h1 h2, of "(Num 0, Num 0, [])" line _ "\<lambda>n. 1000 * int n"
      None None None None None]
  from main ch have nd: "\<not> endsInDigit (splitWs (trim line) ! 2)"
    by blast
  from main have r: "diskReadRate (fst (fetchSystemStats (\<lambda>n. 1000 * int n)
        (resolvedReads None None None None (Some e) None) initialEngine)) = Num 0"
    by blast
  from main have m: "perDiskStats (fst (fetchSystemStats (\<lambda>n. 1000 * int n)
        (resolvedReads None None None None (Some e) None) initialEngine)) = Map.empty"
    by blast
  show ?thesis
    using h1 h2 ch nd r m unfolding e_def line_def by (intro conjI)
qed

section \<open>A read that fails\<close>

lemma memoryPercent_initial: "memoryPercent initialStats = Num 0"
  by (simp add: memoryPercent_def initialStats_def)

text \<open>
  When one of the six reads of a pass is rejected, \<open>Promise.all\<close> rejects and the whole
  body of the \<open>try\<close> block is skipped: the pass returns the \<open>stats\<close> object as it was
  created, with every value at its zero or default; the previous snapshots and the
  per-entity histories stay as they were; each of the six aggregate histories receives
  one point of value 0; and the caller gets this result, not an exception.
\<close>

lemma rejected_read:
  assumes "stat_read reads = Rejected \<or> meminfo_read reads = Rejected
     \<or> uptime_read reads = Rejected \<or> loadavg_read reads = Rejected
     \<or> diskstats_read reads = Rejected \<or> net_read reads = Rejected"
  shows "fetchSystemStats clk reads st =
     (initialStats,
      st\<lparr>history :=
           \<lparr>cpu = addHistoryPoint (cpu (history st)) (clk (clockReads st)) (Num 0),
            memory = addHistoryPoint (memory (history st)) (clk (clockReads st + 1)) (Num 0),
            diskRead = addHistoryPoint (diskRead (history st)) (clk (clockReads st + 2)) (Num 0),
            diskWrite = addHistoryPoint (diskWrite (history st)) (clk (clockReads st + 3)) (Num 0),
            networkSent = addHistoryPoint (networkSent (history st)) (clk (clockReads st + 4)) (Num 0),
            networkRecv = addHistoryPoint (networkRecv (history st)) (clk (clockReads st + 5)) (Num 0)\<rparr>,
         clockReads := clockReads st + 6\<rparr>)"
proof -
  have skip: "(case (stat_read reads, meminfo_read reads, uptime_read reads,
                       loadavg_read reads, diskstats_read reads, net_read reads) of
                   (Resolved a, Resolved b, Resolved c, Resolved d, Resolved e, Resolved f) \<Rightarrow>
                     stateOf (processFamilies clk a b c d e f (st, initialStats))
                 | _ \<Rightarrow> (st, initialStats)) = (st, initialStats)"
    using assms by (auto split: read_result.splits)
  have up: "updateHistory clk (st, initialStats) =
     (st\<lparr>history :=
           \<lparr>cpu = addHistoryPoint (cpu (history st)) (clk (clockReads st)) (Num 0),
            memory = addHistoryPoint (memory (history st)) (clk (clockReads st + 1)) (Num 0),
            diskRead = addHistoryPoint (diskRead (history st)) (clk (clockReads st + 2)) (Num 0),
            diskWrite = addHistoryPoint (diskWrite (history st)) (clk (clockReads st + 3)) (Num 0),
            networkSent = addHistoryPoint (networkSent (history st)) (clk (clockReads st + 4)) (Num 0),
            networkRecv = addHistoryPoint (networkRecv (history st)) (clk (clockReads st + 5)) (Num 0)\<rparr>,
         clockReads := clockReads st + 6\<rparr>, initialStats)"
    by (simp add: updateHistory_def Let_def memoryPercent_initial) (simp add: initialStats_def)
  show ?thesis
    unfolding fetchSystemStats_def Let_def skip up by simp
qed

text \<open>
  C2 does not hold: the six reads are awaited together by one \<open>Promise.all\<close>, with no
  \<open>catch\<close> on the single reads. When the read of \<open>/proc/net/dev\<close> is rejected while
  \<open>/proc/meminfo\<close> was read, the memory family is not processed: the pass returns
  \<open>memoryTotal = 0\<close>, where the same content gives 1000 in a pass whose reads all
  resolve. The claim has the families that were read processed and updated.
\<close>

theorem one_failed_read_skips_all:
  "memoryTotal (fst (fetchSystemStats (\<lambda>n. 1000 * int n)
      \<lparr>stat_read = Resolved None, meminfo_read = Resolved (Some ''MemTotal: 1000 kB''),
       uptime_read = Resolved None, loadavg_read = Resolved None,
       diskstats_read = Resolved None, net_read = Rejected\<rparr> initialEngine)) = Num 0
   \<and> fst (fetchSystemStats (\<lambda>n. 1000 * int n)
      \<lparr>stat_read = Resolved None, meminfo_read = Resolved (Some ''MemTotal: 1000 kB''),
       uptime_read = Resolved None, loadavg_read = Resolved None,
       diskstats_read = Resolved None, net_read = Rejected\<rparr> initialEngine) = initialStats
   \<and> memoryTotal (fst (fetchSystemStats (\<lambda>n. 1000 * int n)
      \<lparr>stat_read = Resolved None, meminfo_read = Resolved (Some ''MemTotal: 1000 kB''),
       uptime_read = Resolved None, loadavg_read = Resolved None,
       diskstats_read = Resolved None, net_read = Resolved None\<rparr> initialEngine)) = Num 1000"
  by (simp add: eval_defs memorySection_def matchVal_def)

section \<open>What the accessors return\<close>

text \<open>
  C3 does not hold for \<open>getSystemHistory\<close>. After a first pass the accessor returns an
  object whose field \<open>cpu\<close> refers to an array of one point. A second pass appends to the
  internal array, and the array reached through the object returned before holds two
  points: the snapshot has changed. And when the caller pushes a point onto the array it
  was given, the point is in the history of the service.
\<close>

theorem getSystemHistory_shares_arrays:
  "arrays (snd (fetchSystemStats_ref (\<lambda>n. 1000 * int n) 
       \<lparr>stat_read = Rejected, meminfo_read = Rejected, uptime_read = Rejected,
        loadavg_read = Rejected, diskstats_read = Rejected, net_read = Rejected\<rparr>
       initialRefEngine))
     (cpu_ref (getSystemHistory (snd (fetchSystemStats_ref (\<lambda>n. 1000 * int n)
       \<lparr>stat_read = Rejected, meminfo_read = Rejected, uptime_read = Rejected,
        loadavg_read = Rejected, diskstats_read = Rejected, net_read = Rejected\<rparr>
       initialRefEngine))))
     = [\<lparr>timestamp = 0, val = Num 0\<rparr>]
   \<and> arrays (snd (fetchSystemStats_ref (\<lambda>n. 1000 * int n)
       \<lparr>stat_read = Rejected, meminfo_read = Rejected, uptime_read = Rejected,
        loadavg_read = Rejected, diskstats_read = Rejected, net_read = Rejected\<rparr>
       (snd (fetchSystemStats_ref (\<lambda>n. 1000 * int n)
       \<lparr>stat_read = Rejected, meminfo_read = Rejected, uptime_read = Rejected,
        loadavg_read = Rejected, diskstats_read = Rejected, net_read = Rejected\<rparr>
       initialRefEngine))))
     (cpu_ref (getSystemHistory (snd (fetchSystemStats_ref (\<lambda>n. 1000 * int n)
       \<lparr>stat_read = Rejected, meminfo_read = Rejected, uptime_read = Rejected,
        loadavg_read = Rejected, diskstats_read = Rejected, net_read = Rejected\<rparr>
       initialRefEngine))))
     = [\<lparr>timestamp = 0, val = Num 0\<rparr>, \<lparr>timestamp = 6000, val = Num 0\<rparr>]
   \<and> cpu (loadHistory
        (arrays (callerPush
           (cpu_ref (getSystemHistory (snd (fetchSystemStats_ref (\<lambda>n. 1000 * int n)
              \<lparr>stat_read = Rejected, meminfo_read = Rejected, uptime_read = Rejected,
               loadavg_read = Rejected, diskstats_read = Rejected, net_read = Rejected\<rparr>
              initialRefEngine))))
           \<lparr>timestamp = 7, val = Num 99\<rparr>
           (snd (fetchSystemStats_ref (\<lambda>n. 1000 * int n)
              \<lparr>stat_read = Rejected, meminfo_read = Rejected, uptime_read = Rejected,
               loadavg_read = Rejected, diskstats_read = Rejected, net_read = Rejected\<rparr>
              initialRefEngine))))
        (historyRef initialRefEngine))
     = [\<lparr>timestamp = 0, val = Num 0\<rparr>, \<lparr>timestamp = 7, val = Num 99\<rparr>]"
  by (simp add: fetchSystemStats_ref_def fetchSystemStats_def initialRefEngine_def
      initialEngine_def initialStats_def getSystemHistory_def loadHistory_def storeHistory_def
      updateHistory_def addHistoryPoint_def MAX_HISTORY_POINTS_def memoryPercent_def
      callerPush_def Let_def)

end
